theory Spec2Isabelle
  imports Main
begin

section \<open>Formulas: \<^verbatim>\<open>Operator\<close> and \<^verbatim>\<open>Set\<close>\<close>

text \<open>
  \<^verbatim>\<open>class Operator(Enum)\<close> has the three members AND, OR, NOT. A \<^verbatim>\<open>Set\<close> holds an
  operator and \<^verbatim>\<open>values: List[Union[str, Set]]\<close>. The union is the datatype \<open>node\<close>:
  \<open>Str\<close> is a Python string (a literal name), \<open>Set\<close> a gate.
\<close>

datatype Operator = AND | OR | NOT

datatype node = Str string | Set Operator "node list"

text \<open>
  The exceptions the two files can raise. \<open>IndexError\<close>: \<^verbatim>\<open>values[0]\<close> or
  \<^verbatim>\<open>booleans[0]\<close> on an empty list. \<open>KeyError\<close>: \<^verbatim>\<open>input[v]\<close> for a name that is
  not a key. \<open>AttributeError\<close>: \<^verbatim>\<open>equation.values\<close> when \<^verbatim>\<open>equation\<close> is a string.
  \<open>TypeError\<close>: a gate used as a dictionary key, or \<^verbatim>\<open>round(None)\<close>.
  \<open>NoSolution\<close>: \<^verbatim>\<open>Exception("No solution")\<close>. The final
  \<^verbatim>\<open>raise ValueError("Unknown operator")\<close> of the two helper functions cannot be reached,
  the enumeration having no fourth member.
\<close>

datatype py_error = IndexError | KeyError | AttributeError | TypeError | NoSolution

section \<open>The linear program built by \<^verbatim>\<open>sat_to_ilp\<close>\<close>

text \<open>
  \<^verbatim>\<open>LpVariable(name, 0, 1, cat="Binary")\<close>: the name, the two bounds and the category.
\<close>

datatype LpVariable = LpVariable (name: string) (lowBound: int) (upBound: int) (cat: string)

text \<open>
  The arithmetic the source writes over variables, kept as written: \<^verbatim>\<open>sum(values)\<close>
  starts from the integer 0 and adds the operands from left to right.
\<close>

datatype LpAffineExpression =
    V LpVariable
  | Const int
  | Add LpAffineExpression LpAffineExpression
  | Sub LpAffineExpression LpAffineExpression

datatype LpConstraint =
    LE LpAffineExpression LpAffineExpression
  | GE LpAffineExpression LpAffineExpression
  | EQ LpAffineExpression LpAffineExpression

datatype LpSense = LpMinimize | LpMaximize

record LpProblem =
  pname :: string
  sense :: LpSense
  objective :: "(LpAffineExpression \<times> string) option"
  constraints :: "LpConstraint list"

definition py_sum :: "LpVariable list \<Rightarrow> LpAffineExpression" where
  "py_sum values = foldl Add (Const 0) (map V values)"

text \<open>\<^verbatim>\<open>f"aux_{n}"\<close> prints the counter in decimal.\<close>

definition digit :: "nat \<Rightarrow> char" where
  "digit d = ''0123456789'' ! d"

fun str_nat :: "nat \<Rightarrow> string" where
  "str_nat n = (if n < 10 then [digit n] else str_nat (n div 10) @ [digit (n mod 10)])"

declare str_nat.simps [simp del]

text \<open>
  The state that \<^verbatim>\<open>process_set\<close> updates through its closure: the counter
  \<^verbatim>\<open>aux_counter["count"]\<close>, the dictionary \<^verbatim>\<open>variables\<close> (in insertion order) and
  \<^verbatim>\<open>problem\<close>.
\<close>

record enc_state =
  count :: nat
  variables :: "(string \<times> LpVariable) list"
  problem :: LpProblem

definition generate_aux_var :: "enc_state \<Rightarrow> LpVariable \<times> enc_state" where
  "generate_aux_var s =
     (let aux_name = ''aux_'' @ str_nat (count s)
      in (LpVariable aux_name 0 1 ''Binary'', s\<lparr>count := count s + 1\<rparr>))"

text \<open>\<^verbatim>\<open>problem += c\<close> for each constraint of a list, in order.\<close>

definition add_constraints :: "LpConstraint list \<Rightarrow> enc_state \<Rightarrow> enc_state" where
  "add_constraints cs s = s\<lparr>problem := (problem s)\<lparr>constraints := constraints (problem s) @ cs\<rparr>\<rparr>"

text \<open>The constraints one gate adds, by operator; NOT reads \<^verbatim>\<open>values[0]\<close>.\<close>

fun gate_constraints :: "Operator \<Rightarrow> LpVariable \<Rightarrow> LpVariable list \<Rightarrow> py_error + LpConstraint list" where
  "gate_constraints AND aux_var values =
     Inr (map (\<lambda>v. LE (V aux_var) (V v)) values @
          [GE (V aux_var) (Add (Sub (py_sum values) (Const (int (length values)))) (Const 1))])"
| "gate_constraints OR aux_var values =
     Inr (map (\<lambda>v. GE (V aux_var) (V v)) values @ [LE (V aux_var) (py_sum values)])"
| "gate_constraints NOT aux_var values =
     (case values of
        [] \<Rightarrow> Inl IndexError
      | v0 # _ \<Rightarrow> Inr [EQ (V aux_var) (Sub (Const 1) (V v0))])"

text \<open>
  \<^verbatim>\<open>process_set\<close>, with the list comprehension
  \<^verbatim>\<open>[process_set(v) for v in equation.values]\<close> as \<open>process_values\<close>.
\<close>

fun process_set :: "node \<Rightarrow> enc_state \<Rightarrow> py_error + (LpVariable \<times> enc_state)"
  and process_values :: "node list \<Rightarrow> enc_state \<Rightarrow> py_error + (LpVariable list \<times> enc_state)" where
  "process_set (Str equation) s =
     (case map_of (variables s) equation of
        None \<Rightarrow>
          (let x = LpVariable (''x_'' @ equation) 0 1 ''Binary''
           in Inr (x, s\<lparr>variables := variables s @ [(equation, x)]\<rparr>))
      | Some x \<Rightarrow> Inr (x, s))"
| "process_set (Set op vals) s =
     (case process_values vals s of
        Inl e \<Rightarrow> Inl e
      | Inr (values, s1) \<Rightarrow>
          (case generate_aux_var s1 of
             (aux_var, s2) \<Rightarrow>
               (case gate_constraints op aux_var values of
                  Inl e \<Rightarrow> Inl e
                | Inr cs \<Rightarrow> Inr (aux_var, add_constraints cs s2))))"
| "process_values [] s = Inr ([], s)"
| "process_values (v # vs) s =
     (case process_set v s of
        Inl e \<Rightarrow> Inl e
      | Inr (x, s1) \<Rightarrow>
          (case process_values vs s1 of
             Inl e \<Rightarrow> Inl e
           | Inr (xs, s2) \<Rightarrow> Inr (x # xs, s2)))"

definition init_state :: enc_state where
  "init_state =
     \<lparr>count = 0, variables = [],
      problem = \<lparr>pname = ''SAT_to_ILP'', sense = LpMaximize, objective = None, constraints = []\<rparr>\<rparr>"

text \<open>
  \<^verbatim>\<open>sat_to_ilp\<close>: \<^verbatim>\<open>problem += root, "Satisfiability"\<close> makes the root variable the
  objective, under that name. The function returns the problem and the dictionary.
\<close>

definition sat_to_ilp :: "node \<Rightarrow> py_error + (LpProblem \<times> (string \<times> LpVariable) list)" where
  "sat_to_ilp equation =
     (case process_set equation init_state of
        Inl e \<Rightarrow> Inl e
      | Inr (root, s) \<Rightarrow>
          Inr ((problem s)\<lparr>objective := Some (V root, ''Satisfiability'')\<rparr>, variables s))"

section \<open>The evaluator \<^verbatim>\<open>verify_sat\<close> of sat.py\<close>

text \<open>
  \<^verbatim>\<open>input[v]\<close>: the dictionary lookup raises on a missing key; a gate is not a key.
\<close>

fun lookup :: "(string \<rightharpoonup> bool) \<Rightarrow> node \<Rightarrow> py_error + bool" where
  "lookup input (Str v) = (case input v of None \<Rightarrow> Inl KeyError | Some b \<Rightarrow> Inr b)"
| "lookup input (Set op vals) = Inl TypeError"

text \<open>
  \<^verbatim>\<open>all(input[v] for v in equation.values)\<close> and the same with \<^verbatim>\<open>any\<close>: the argument
  is a generator, so the lookups happen one by one and stop at the first operand that
  decides the result.
\<close>

fun all_input :: "(string \<rightharpoonup> bool) \<Rightarrow> node list \<Rightarrow> py_error + bool" where
  "all_input input [] = Inr True"
| "all_input input (v # vs) =
     (case lookup input v of
        Inl e \<Rightarrow> Inl e
      | Inr b \<Rightarrow> if b then all_input input vs else Inr False)"

fun any_input :: "(string \<rightharpoonup> bool) \<Rightarrow> node list \<Rightarrow> py_error + bool" where
  "any_input input [] = Inr False"
| "any_input input (v # vs) =
     (case lookup input v of
        Inl e \<Rightarrow> Inl e
      | Inr b \<Rightarrow> if b then Inr True else any_input input vs)"

fun use_operator_on_values :: "node \<Rightarrow> (string \<rightharpoonup> bool) \<Rightarrow> py_error + bool" where
  "use_operator_on_values (Str s) input = Inl AttributeError"
| "use_operator_on_values (Set NOT vals) input =
     (case vals of
        [] \<Rightarrow> Inl IndexError
      | v0 # _ \<Rightarrow> (case lookup input v0 of Inl e \<Rightarrow> Inl e | Inr b \<Rightarrow> Inr (\<not> b)))"
| "use_operator_on_values (Set AND vals) input = all_input input vals"
| "use_operator_on_values (Set OR vals) input = any_input input vals"

fun use_operator_on_booleans :: "Operator \<Rightarrow> bool list \<Rightarrow> py_error + bool" where
  "use_operator_on_booleans NOT booleans =
     (case booleans of [] \<Rightarrow> Inl IndexError | b0 # _ \<Rightarrow> Inr (\<not> b0))"
| "use_operator_on_booleans AND booleans = Inr (list_all (\<lambda>b. b) booleans)"
| "use_operator_on_booleans OR booleans = Inr (list_ex (\<lambda>b. b) booleans)"

fun is_str :: "node \<Rightarrow> bool" where
  "is_str (Str s) = True"
| "is_str (Set op vals) = False"

text \<open>
  \<^verbatim>\<open>verify_sat\<close>. Reading \<^verbatim>\<open>equation.values\<close> of a string raises. The list
  comprehension \<^verbatim>\<open>[verify_sat(v, input) for v in equation.values]\<close> is \<open>verify_all\<close>:
  it evaluates every operand, in order, before the operator is applied.
\<close>

fun verify_sat :: "node \<Rightarrow> (string \<rightharpoonup> bool) \<Rightarrow> py_error + bool"
  and verify_all :: "node list \<Rightarrow> (string \<rightharpoonup> bool) \<Rightarrow> py_error + bool list" where
  "verify_sat (Str s) input = Inl AttributeError"
| "verify_sat (Set op vals) input =
     (if list_all is_str vals then use_operator_on_values (Set op vals) input
      else (case verify_all vals input of
              Inl e \<Rightarrow> Inl e
            | Inr booleans \<Rightarrow> use_operator_on_booleans op booleans))"
| "verify_all [] input = Inr []"
| "verify_all (v # vs) input =
     (case verify_sat v input of
        Inl e \<Rightarrow> Inl e
      | Inr b \<Rightarrow> (case verify_all vs input of Inl e \<Rightarrow> Inl e | Inr bs \<Rightarrow> Inr (b # bs)))"

section \<open>\<^verbatim>\<open>solve_ilp\<close>\<close>

text \<open>
  The status strings of \<^verbatim>\<open>LpStatus\<close>. The solver behind \<^verbatim>\<open>problem.solve()\<close> is not
  part of the repository: it is the parameter \<open>solver\<close>, which returns the status and
  the value of every variable (\<open>None\<close> for a variable the problem does not hold). The
  values of binary variables are taken as integers, so that \<^verbatim>\<open>bool(round(x))\<close> is
  \<open>x \<noteq> 0\<close>.
\<close>

datatype LpStatus = NotSolved | Optimal | Infeasible | Unbounded | Undefined

type_synonym solver = "LpProblem \<Rightarrow> LpStatus \<times> (LpVariable \<Rightarrow> int option)"

fun read_values :: "(LpVariable \<Rightarrow> int option) \<Rightarrow> (string \<times> LpVariable) list
    \<Rightarrow> py_error + (string \<times> bool) list" where
  "read_values val [] = Inr []"
| "read_values val ((var_name, var) # rest) =
     (case val var of
        None \<Rightarrow> Inl TypeError
      | Some x \<Rightarrow>
          (case read_values val rest of
             Inl e \<Rightarrow> Inl e
           | Inr kvs \<Rightarrow> Inr ((var_name, x \<noteq> 0) # kvs)))"

definition solve_ilp :: "solver \<Rightarrow> node \<Rightarrow> py_error + (string \<times> bool) list" where
  "solve_ilp solver equation =
     (case sat_to_ilp equation of
        Inl e \<Rightarrow> Inl e
      | Inr (prob, vars) \<Rightarrow>
          (case solver prob of
             (status, val) \<Rightarrow>
               if status = Optimal then read_values val vars else Inl NoSolution))"

section \<open>What a solution of the linear program is\<close>

fun eval_exp :: "(LpVariable \<Rightarrow> int) \<Rightarrow> LpAffineExpression \<Rightarrow> int" where
  "eval_exp \<sigma> (V v) = \<sigma> v"
| "eval_exp \<sigma> (Const c) = c"
| "eval_exp \<sigma> (Add a b) = eval_exp \<sigma> a + eval_exp \<sigma> b"
| "eval_exp \<sigma> (Sub a b) = eval_exp \<sigma> a - eval_exp \<sigma> b"

fun holds :: "(LpVariable \<Rightarrow> int) \<Rightarrow> LpConstraint \<Rightarrow> bool" where
  "holds \<sigma> (LE a b) = (eval_exp \<sigma> a \<le> eval_exp \<sigma> b)"
| "holds \<sigma> (GE a b) = (eval_exp \<sigma> a \<ge> eval_exp \<sigma> b)"
| "holds \<sigma> (EQ a b) = (eval_exp \<sigma> a = eval_exp \<sigma> b)"

fun vars_exp :: "LpAffineExpression \<Rightarrow> LpVariable list" where
  "vars_exp (V v) = [v]"
| "vars_exp (Const c) = []"
| "vars_exp (Add a b) = vars_exp a @ vars_exp b"
| "vars_exp (Sub a b) = vars_exp a @ vars_exp b"

fun vars_con :: "LpConstraint \<Rightarrow> LpVariable list" where
  "vars_con (LE a b) = vars_exp a @ vars_exp b"
| "vars_con (GE a b) = vars_exp a @ vars_exp b"
| "vars_con (EQ a b) = vars_exp a @ vars_exp b"

definition in_bounds :: "(LpVariable \<Rightarrow> int) \<Rightarrow> LpVariable \<Rightarrow> bool" where
  "in_bounds \<sigma> v = (lowBound v \<le> \<sigma> v \<and> \<sigma> v \<le> upBound v)"

definition objective_vars :: "LpProblem \<Rightarrow> LpVariable list" where
  "objective_vars p = (case objective p of None \<Rightarrow> [] | Some (e, n) \<Rightarrow> vars_exp e)"

definition problem_vars :: "LpProblem \<Rightarrow> LpVariable list" where
  "problem_vars p = concat (map vars_con (constraints p)) @ objective_vars p"

text \<open>
  A feasible point gives every variable of the problem a value within its bounds
  and satisfies every constraint.
\<close>

definition feasible :: "LpProblem \<Rightarrow> (LpVariable \<Rightarrow> int) \<Rightarrow> bool" where
  "feasible p \<sigma> = (list_all (holds \<sigma>) (constraints p) \<and> list_all (in_bounds \<sigma>) (problem_vars p))"

definition objective_value :: "LpProblem \<Rightarrow> (LpVariable \<Rightarrow> int) \<Rightarrow> int" where
  "objective_value p \<sigma> = (case objective p of None \<Rightarrow> 0 | Some (e, n) \<Rightarrow> eval_exp \<sigma> e)"

text \<open>Every problem built here maximises: an optimum is a feasible point of greatest objective.\<close>

definition optimal :: "LpProblem \<Rightarrow> (LpVariable \<Rightarrow> int) \<Rightarrow> bool" where
  "optimal p \<sigma> =
     (feasible p \<sigma> \<and> (\<forall>\<tau>. feasible p \<tau> \<longrightarrow> objective_value p \<tau> \<le> objective_value p \<sigma>))"

text \<open>
  What is asked of the solver on a problem \<open>p\<close>: when \<open>p\<close> has a feasible point the
  status is Optimal and the values are those of an optimum; when it has none the status is
  Infeasible.
\<close>

definition solver_sound :: "solver \<Rightarrow> LpProblem \<Rightarrow> bool" where
  "solver_sound solver p =
     (case solver p of
        (status, val) \<Rightarrow>
          if \<exists>\<sigma>. feasible p \<sigma>
          then status = Optimal \<and>
               (\<exists>\<sigma>. optimal p \<sigma> \<and> (\<forall>v \<in> set (problem_vars p). val v = Some (\<sigma> v)))
          else status = Infeasible)"

text \<open>A solver that answers Optimal with the values of a given point, whatever the problem.\<close>

definition fixed_solver :: "(LpVariable \<Rightarrow> int) \<Rightarrow> solver" where
  "fixed_solver \<sigma> p = (Optimal, \<lambda>v. Some (\<sigma> v))"

section \<open>Formulas and problems used as examples\<close>

definition x_a :: LpVariable where "x_a = LpVariable ''x_a'' 0 1 ''Binary''"
definition x_b :: LpVariable where "x_b = LpVariable ''x_b'' 0 1 ''Binary''"
definition aux_0 :: LpVariable where "aux_0 = LpVariable ''aux_0'' 0 1 ''Binary''"
definition aux_1 :: LpVariable where "aux_1 = LpVariable ''aux_1'' 0 1 ''Binary''"
definition aux_2 :: LpVariable where "aux_2 = LpVariable ''aux_2'' 0 1 ''Binary''"

text \<open>The unsatisfiable formula a AND (NOT a), and the problem \<^verbatim>\<open>sat_to_ilp\<close> builds for it.\<close>

definition contradiction :: node where
  "contradiction = Set AND [Str ''a'', Set NOT [Str ''a'']]"

definition contradiction_problem :: LpProblem where
  "contradiction_problem =
     \<lparr>pname = ''SAT_to_ILP'', sense = LpMaximize,
      objective = Some (V aux_1, ''Satisfiability''),
      constraints =
        [EQ (V aux_0) (Sub (Const 1) (V x_a)),
         LE (V aux_1) (V x_a),
         LE (V aux_1) (V aux_0),
         GE (V aux_1) (Add (Sub (Add (Add (Const 0) (V x_a)) (V aux_0)) (Const 2)) (Const 1))]\<rparr>"

text \<open>
  The same contradiction with every operand a gate, (OR a) AND (NOT a), which
  \<^verbatim>\<open>verify_sat\<close> can evaluate.
\<close>

definition gates_contradiction :: node where
  "gates_contradiction = Set AND [Set OR [Str ''a''], Set NOT [Str ''a'']]"

definition gates_contradiction_problem :: LpProblem where
  "gates_contradiction_problem =
     \<lparr>pname = ''SAT_to_ILP'', sense = LpMaximize,
      objective = Some (V aux_2, ''Satisfiability''),
      constraints =
        [GE (V aux_0) (V x_a),
         LE (V aux_0) (Add (Const 0) (V x_a)),
         EQ (V aux_1) (Sub (Const 1) (V x_a)),
         LE (V aux_2) (V aux_0),
         LE (V aux_2) (V aux_1),
         GE (V aux_2) (Add (Sub (Add (Add (Const 0) (V aux_0)) (V aux_1)) (Const 2)) (Const 1))]\<rparr>"

text \<open>The formula of \<^verbatim>\<open>test_nested_and_or\<close>: (a AND b) OR c, a gate beside a literal.\<close>

definition nested_and_or :: node where
  "nested_and_or = Set OR [Set AND [Str ''a'', Str ''b''], Str ''c'']"

section \<open>Notions used to state the properties of the encoder\<close>

text \<open>The auxiliary variable created when the counter stands at \<open>k\<close>.\<close>

definition aux_var_at :: "nat \<Rightarrow> LpVariable" where
  "aux_var_at k = LpVariable (''aux_'' @ str_nat k) 0 1 ''Binary''"

text \<open>The state after one gate: the counter moved by one, the constraints \<open>cs\<close> appended.\<close>

definition emit :: "LpConstraint list \<Rightarrow> enc_state \<Rightarrow> enc_state" where
  "emit cs s = s\<lparr>count := count s + 1,
                 problem := (problem s)\<lparr>constraints := constraints (problem s) @ cs\<rparr>\<rparr>"

text \<open>The state once the two literals \<open>a\<close> and \<open>b\<close> have been met, from the initial state.\<close>

definition state_ab :: enc_state where
  "state_ab = init_state\<lparr>variables := [(''a'', x_a), (''b'', x_b)]\<rparr>"

section \<open>Notions used to state the properties of the formulas\<close>

text \<open>Some NOT gate of the formula has no operand.\<close>

fun has_empty_not :: "node \<Rightarrow> bool"
  and any_empty_not :: "node list \<Rightarrow> bool" where
  "has_empty_not (Str n) = False"
| "has_empty_not (Set op vals) = ((op = NOT \<and> vals = []) \<or> any_empty_not vals)"
| "any_empty_not [] = False"
| "any_empty_not (v # vs) = (has_empty_not v \<or> any_empty_not vs)"

text \<open>The literal names of a formula, from left to right, with repetitions.\<close>

fun literals :: "node \<Rightarrow> string list"
  and literals_list :: "node list \<Rightarrow> string list" where
  "literals (Str n) = [n]"
| "literals (Set op vals) = literals_list vals"
| "literals_list [] = []"
| "literals_list (v # vs) = literals v @ literals_list vs"

section \<open>The encoding in closed form: gates numbered in post-order\<close>

text \<open>
  The description of the encoding that the state-passing \<^verbatim>\<open>process_set\<close> is compared
  with. The gates of a formula are numbered in post-order, from a start \<open>k\<close>: the operands
  of a gate from left to right, each with its sub-gates, then the gate itself. \<open>gates\<close>
  counts the gate occurrences.
\<close>

fun gates :: "node \<Rightarrow> nat"
  and gates_list :: "node list \<Rightarrow> nat" where
  "gates (Str n) = 0"
| "gates (Set op vals) = gates_list vals + 1"
| "gates_list [] = 0"
| "gates_list (v # vs) = gates v + gates_list vs"

text \<open>The decision variable of a literal.\<close>

definition lit_var :: "string \<Rightarrow> LpVariable" where
  "lit_var n = LpVariable (''x_'' @ n) 0 1 ''Binary''"

text \<open>
  The variable that stands for a formula whose gates are numbered from \<open>k\<close>: the
  literal's variable, or the auxiliary variable of the last gate in post-order.
\<close>

fun root_var :: "nat \<Rightarrow> node \<Rightarrow> LpVariable" where
  "root_var k (Str n) = lit_var n"
| "root_var k (Set op vals) = aux_var_at (k + gates_list vals)"

fun operand_vars :: "nat \<Rightarrow> node list \<Rightarrow> LpVariable list" where
  "operand_vars k [] = []"
| "operand_vars k (v # vs) = root_var k v # operand_vars (k + gates v) vs"

text \<open>The constraints of a gate, none where \<^verbatim>\<open>values[0]\<close> raises.\<close>

definition gate_shape :: "Operator \<Rightarrow> LpVariable \<Rightarrow> LpVariable list \<Rightarrow> LpConstraint list" where
  "gate_shape op a vs = (case gate_constraints op a vs of Inl e \<Rightarrow> [] | Inr cs \<Rightarrow> cs)"

text \<open>The constraints of a formula, gate after gate in post-order.\<close>

fun post_order :: "nat \<Rightarrow> node \<Rightarrow> LpConstraint list"
  and post_order_list :: "nat \<Rightarrow> node list \<Rightarrow> LpConstraint list" where
  "post_order k (Str n) = []"
| "post_order k (Set op vals) =
     post_order_list k vals @ gate_shape op (aux_var_at (k + gates_list vals)) (operand_vars k vals)"
| "post_order_list k [] = []"
| "post_order_list k (v # vs) = post_order k v @ post_order_list (k + gates v) vs"

text \<open>A literal takes its place in the dictionary the first time it is met.\<close>

definition register :: "(string \<times> LpVariable) list \<Rightarrow> string \<Rightarrow> (string \<times> LpVariable) list" where
  "register vars n = (if map_of vars n = None then vars @ [(n, lit_var n)] else vars)"

text \<open>Every entry of the dictionary maps a name to that literal's variable.\<close>

definition names_ok :: "(string \<times> LpVariable) list \<Rightarrow> bool" where
  "names_ok vars = list_all (\<lambda>(n, v). v = lit_var n) vars"

text \<open>The state once \<open>g\<close> gates, the literals \<open>ns\<close> and the constraints \<open>cs\<close> are added.\<close>

definition advance :: "nat \<Rightarrow> string list \<Rightarrow> LpConstraint list \<Rightarrow> enc_state \<Rightarrow> enc_state" where
  "advance g ns cs s =
     s\<lparr>count := count s + g,
       variables := foldl register (variables s) ns,
       problem := (problem s)\<lparr>constraints := constraints (problem s) @ cs\<rparr>\<rparr>"

text \<open>
  Reading a decimal numeral back, and the renaming of auxiliary variables that moves every
  index up by \<open>d\<close>; literal variables keep their names.
\<close>

definition digit_val :: "char \<Rightarrow> nat" where
  "digit_val c = of_char c - 48"

definition parse_nat :: "string \<Rightarrow> nat" where
  "parse_nat ds = foldl (\<lambda>n c. 10 * n + digit_val c) 0 ds"

definition is_aux :: "LpVariable \<Rightarrow> bool" where
  "is_aux v = (take 4 (name v) = ''aux_'')"

definition shift_var :: "nat \<Rightarrow> LpVariable \<Rightarrow> LpVariable" where
  "shift_var d v =
     (if is_aux v
      then LpVariable (''aux_'' @ str_nat (parse_nat (drop 4 (name v)) + d)) (lowBound v) (upBound v) (cat v)
      else v)"

text \<open>Renaming the variables of an expression and of a constraint.\<close>

fun rename_exp :: "(LpVariable \<Rightarrow> LpVariable) \<Rightarrow> LpAffineExpression \<Rightarrow> LpAffineExpression" where
  "rename_exp \<rho> (V v) = V (\<rho> v)"
| "rename_exp \<rho> (Const c) = Const c"
| "rename_exp \<rho> (Add a b) = Add (rename_exp \<rho> a) (rename_exp \<rho> b)"
| "rename_exp \<rho> (Sub a b) = Sub (rename_exp \<rho> a) (rename_exp \<rho> b)"

fun rename_con :: "(LpVariable \<Rightarrow> LpVariable) \<Rightarrow> LpConstraint \<Rightarrow> LpConstraint" where
  "rename_con \<rho> (LE a b) = LE (rename_exp \<rho> a) (rename_exp \<rho> b)"
| "rename_con \<rho> (GE a b) = GE (rename_exp \<rho> a) (rename_exp \<rho> b)"
| "rename_con \<rho> (EQ a b) = EQ (rename_exp \<rho> a) (rename_exp \<rho> b)"

text \<open>The number of constraints: one for NOT, one per operand and one more for AND and OR.\<close>

fun constraint_count :: "node \<Rightarrow> nat"
  and constraint_count_list :: "node list \<Rightarrow> nat" where
  "constraint_count (Str n) = 0"
| "constraint_count (Set op vals) =
     constraint_count_list vals + (if op = NOT then 1 else length vals + 1)"
| "constraint_count_list [] = 0"
| "constraint_count_list (v # vs) = constraint_count v + constraint_count_list vs"

section \<open>More examples\<close>

definition x_c :: LpVariable where "x_c = LpVariable ''x_c'' 0 1 ''Binary''"

definition aux_3 :: LpVariable where "aux_3 = LpVariable ''aux_3'' 0 1 ''Binary''"

text \<open>The formula of \<^verbatim>\<open>test_complex_nested_expression\<close>: NOT ((a AND b) OR (NOT c)).\<close>

definition complex_nested :: node where
  "complex_nested =
     Set NOT [Set OR [Set AND [Str ''a'', Str ''b''], Set NOT [Str ''c'']]]"

definition complex_nested_problem :: LpProblem where
  "complex_nested_problem =
     \<lparr>pname = ''SAT_to_ILP'', sense = LpMaximize,
      objective = Some (V aux_3, ''Satisfiability''),
      constraints =
        [LE (V aux_0) (V x_a),
         LE (V aux_0) (V x_b),
         GE (V aux_0) (Add (Sub (Add (Add (Const 0) (V x_a)) (V x_b)) (Const 2)) (Const 1)),
         EQ (V aux_1) (Sub (Const 1) (V x_c)),
         GE (V aux_2) (V aux_0),
         GE (V aux_2) (V aux_1),
         LE (V aux_2) (Add (Add (Const 0) (V aux_0)) (V aux_1)),
         EQ (V aux_3) (Sub (Const 1) (V aux_2))]\<rparr>"

definition aux_4 :: LpVariable where "aux_4 = LpVariable ''aux_4'' 0 1 ''Binary''"

text \<open>The state after a AND b has been encoded from the initial state.\<close>

definition state_after_and :: enc_state where
  "state_after_and =
     emit [LE (V aux_0) (V x_a), LE (V aux_0) (V x_b),
           GE (V aux_0) (Add (Sub (py_sum [x_a, x_b]) (Const 2)) (Const 1))] state_ab"

text \<open>The formula of \<^verbatim>\<open>test_single_variable\<close>, OR over the one literal a, and its problem.\<close>

definition single_or :: node where
  "single_or = Set OR [Str ''a'']"

definition single_or_problem :: LpProblem where
  "single_or_problem =
     \<lparr>pname = ''SAT_to_ILP'', sense = LpMaximize,
      objective = Some (V aux_0, ''Satisfiability''),
      constraints = [GE (V aux_0) (V x_a), LE (V aux_0) (Add (Const 0) (V x_a))]\<rparr>"

section \<open>Truth values, and the point of the linear program they give\<close>

text \<open>
  The truth value of a formula under a total assignment of its literals, as the
  constraints of the encoder read the gates: AND of all operands, OR of some operand, NOT of
  the first operand.
\<close>

fun truth :: "(string \<Rightarrow> bool) \<Rightarrow> node \<Rightarrow> bool"
  and truths :: "(string \<Rightarrow> bool) \<Rightarrow> node list \<Rightarrow> bool list" where
  "truth a (Str n) = a n"
| "truth a (Set op vals) =
     (case op of
        AND \<Rightarrow> list_all (\<lambda>b. b) (truths a vals)
      | OR \<Rightarrow> list_ex (\<lambda>b. b) (truths a vals)
      | NOT \<Rightarrow> (case truths a vals of [] \<Rightarrow> False | b # _ \<Rightarrow> \<not> b))"
| "truths a [] = []"
| "truths a (v # vs) = truth a v # truths a vs"

text \<open>The truth values of the gates of a formula, in post-order.\<close>

fun gate_values :: "(string \<Rightarrow> bool) \<Rightarrow> node \<Rightarrow> bool list"
  and gate_values_list :: "(string \<Rightarrow> bool) \<Rightarrow> node list \<Rightarrow> bool list" where
  "gate_values a (Str n) = []"
| "gate_values a (Set op vals) = gate_values_list a vals @ [truth a (Set op vals)]"
| "gate_values_list a [] = []"
| "gate_values_list a (v # vs) = gate_values a v @ gate_values_list a vs"

text \<open>A truth value as the value of a binary variable.\<close>

fun of_truth :: "bool \<Rightarrow> int" where
  "of_truth True = 1"
| "of_truth False = 0"

text \<open>
  The point of the linear program that an assignment gives: a literal variable
  \<open>x_n\<close> takes the value of \<open>n\<close>, the auxiliary variable \<open>aux_i\<close> the truth value of
  gate \<open>i\<close>.
\<close>

definition solution :: "(string \<Rightarrow> bool) \<Rightarrow> node \<Rightarrow> LpVariable \<Rightarrow> int" where
  "solution a f v =
     (if is_aux v
      then (let i = parse_nat (drop 4 (name v))
            in of_truth (i < gates f \<and> gate_values a f ! i))
      else of_truth (a (drop 2 (name v))))"

text \<open>A variable with the bounds 0 and 1.\<close>

definition binary :: "LpVariable \<Rightarrow> bool" where
  "binary v = (lowBound v = 0 \<and> upBound v = 1)"

section \<open>The gate nodes of a formula, and the specification's constraints\<close>

text \<open>Every NOT gate of the formula has exactly one operand.\<close>

fun unary_not :: "node \<Rightarrow> bool"
  and unary_not_list :: "node list \<Rightarrow> bool" where
  "unary_not (Str n) = True"
| "unary_not (Set op vals) = ((op = NOT \<longrightarrow> length vals = 1) \<and> unary_not_list vals)"
| "unary_not_list [] = True"
| "unary_not_list (v # vs) = (unary_not v \<and> unary_not_list vs)"

text \<open>
  The gate nodes of a formula in post-order, numbered from \<open>k\<close>: each with its auxiliary
  variable, its operator and the variables of its operands (a literal's decision variable,
  or the auxiliary variable of the operand gate).
\<close>

fun gate_nodes :: "nat \<Rightarrow> node \<Rightarrow> (LpVariable \<times> Operator \<times> LpVariable list) list"
  and gate_nodes_list :: "nat \<Rightarrow> node list \<Rightarrow> (LpVariable \<times> Operator \<times> LpVariable list) list" where
  "gate_nodes k (Str n) = []"
| "gate_nodes k (Set op vals) =
     gate_nodes_list k vals @ [(aux_var_at (k + gates_list vals), op, operand_vars k vals)]"
| "gate_nodes_list k [] = []"
| "gate_nodes_list k (v # vs) = gate_nodes k v @ gate_nodes_list (k + gates v) vs"

text \<open>
  The constraints of a gate node, as the specification words them. AND over \<open>v1..vn\<close>:
  \<open>a \<le> vi\<close> for each \<open>vi\<close>, then \<open>a \<ge> (\<Sum> vi) - n + 1\<close>. OR: \<open>a \<ge> vi\<close> for each
  \<open>vi\<close>, then \<open>a \<le> \<Sum> vi\<close>. NOT over a single \<open>v\<close>: \<open>a = 1 - v\<close>.
\<close>

fun spec_constraints :: "LpVariable \<times> Operator \<times> LpVariable list \<Rightarrow> LpConstraint list" where
  "spec_constraints (a, AND, vs) =
     map (\<lambda>v. LE (V a) (V v)) vs @
     [GE (V a) (Add (Sub (py_sum vs) (Const (int (length vs)))) (Const 1))]"
| "spec_constraints (a, OR, vs) = map (\<lambda>v. GE (V a) (V v)) vs @ [LE (V a) (py_sum vs)]"
| "spec_constraints (a, NOT, vs) = (case vs of [v] \<Rightarrow> [EQ (V a) (Sub (Const 1) (V v))] | _ \<Rightarrow> [])"

text \<open>The boolean function of a gate node on the 0/1 values of its operand variables.\<close>

fun spec_gate :: "(LpVariable \<Rightarrow> int) \<Rightarrow> LpVariable \<times> Operator \<times> LpVariable list \<Rightarrow> bool" where
  "spec_gate \<sigma> (a, AND, vs) = (\<forall>v \<in> set vs. \<sigma> v = 1)"
| "spec_gate \<sigma> (a, OR, vs) = (\<exists>v \<in> set vs. \<sigma> v = 1)"
| "spec_gate \<sigma> (a, NOT, vs) = (case vs of [v] \<Rightarrow> \<sigma> v \<noteq> 1 | _ \<Rightarrow> False)"

text \<open>A NOT gate with two gate operands, NOT [AND [a], OR [b]], and its problem.\<close>

definition not_and_or :: node where
  "not_and_or = Set NOT [Set AND [Str ''a''], Set OR [Str ''b'']]"

definition not_and_or_problem :: LpProblem where
  "not_and_or_problem =
     \<lparr>pname = ''SAT_to_ILP'', sense = LpMaximize,
      objective = Some (V aux_2, ''Satisfiability''),
      constraints =
        [LE (V aux_0) (V x_a),
         GE (V aux_0) (Add (Sub (Add (Const 0) (V x_a)) (Const 1)) (Const 1)),
         GE (V aux_1) (V x_b),
         LE (V aux_1) (Add (Const 0) (V x_b)),
         EQ (V aux_2) (Sub (Const 1) (V aux_0))]\<rparr>"

section \<open>Supporting lemmas\<close>

lemma str_nat_digit: "n < 10 \<Longrightarrow> str_nat n = [digit n]"
  by (simp add: str_nat.simps)

lemmas enc_defs = sat_to_ilp_def init_state_def generate_aux_var_def add_constraints_def
  str_nat_digit digit_def py_sum_def Let_def

lemmas var_defs = x_a_def x_b_def aux_0_def aux_1_def aux_2_def

lemma sat_to_ilp_contradiction:
  "sat_to_ilp contradiction = Inr (contradiction_problem, [(''a'', x_a)])"
  by (simp add: contradiction_def contradiction_problem_def enc_defs var_defs)

lemma sat_to_ilp_gates_contradiction:
  "sat_to_ilp gates_contradiction = Inr (gates_contradiction_problem, [(''a'', x_a)])"
  by (simp add: gates_contradiction_def gates_contradiction_problem_def enc_defs var_defs)

lemma contradiction_feasible:
  "feasible contradiction_problem (\<lambda>v. if name v = ''aux_0'' then 1 else 0)"
  by (simp add: contradiction_problem_def feasible_def problem_vars_def in_bounds_def
      objective_vars_def var_defs)

lemma contradiction_root_0:
  assumes "feasible contradiction_problem \<tau>"
  shows "\<tau> aux_1 \<le> 0"
proof -
  from assms have "\<tau> aux_0 = 1 - \<tau> x_a" "\<tau> aux_1 \<le> \<tau> x_a" "\<tau> aux_1 \<le> \<tau> aux_0"
    by (simp_all add: contradiction_problem_def feasible_def)
  then show ?thesis by arith
qed

lemma gates_contradiction_feasible:
  "feasible gates_contradiction_problem (\<lambda>v. if name v = ''aux_1'' then 1 else 0)"
  by (simp add: gates_contradiction_problem_def feasible_def problem_vars_def in_bounds_def
      objective_vars_def var_defs)

lemma gates_contradiction_root_0:
  assumes "feasible gates_contradiction_problem \<tau>"
  shows "\<tau> aux_2 \<le> 0"
proof -
  from assms have "\<tau> aux_0 \<le> 0 + \<tau> x_a" "\<tau> aux_1 = 1 - \<tau> x_a"
    "\<tau> aux_2 \<le> \<tau> aux_0" "\<tau> aux_2 \<le> \<tau> aux_1"
    by (simp_all add: gates_contradiction_problem_def feasible_def)
  then show ?thesis by arith
qed

text \<open>A solver that returns an optimum with the right values is sound on that problem.\<close>

lemma fixed_solver_sound:
  assumes "feasible p \<sigma>"
    and "\<And>\<tau>. feasible p \<tau> \<Longrightarrow> objective_value p \<tau> \<le> objective_value p \<sigma>"
  shows "solver_sound (fixed_solver \<sigma>) p"
proof -
  from assms have "optimal p \<sigma>" by (simp add: optimal_def)
  then have "\<exists>\<sigma>'. optimal p \<sigma>' \<and> (\<forall>v \<in> set (problem_vars p). Some (\<sigma> v) = Some (\<sigma>' v))"
    by blast
  with assms(1) show ?thesis
    by (auto simp: solver_sound_def fixed_solver_def)
qed

lemma solver_sound_contradiction:
  "solver_sound (fixed_solver (\<lambda>v. if name v = ''aux_0'' then 1 else 0)) contradiction_problem"
proof (rule fixed_solver_sound [OF contradiction_feasible])
  fix \<tau> assume "feasible contradiction_problem \<tau>"
  then have "\<tau> aux_1 \<le> 0" by (rule contradiction_root_0)
  then show "objective_value contradiction_problem \<tau>
      \<le> objective_value contradiction_problem (\<lambda>v. if name v = ''aux_0'' then 1 else 0)"
    by (simp add: objective_value_def contradiction_problem_def aux_1_def)
qed

lemma solver_sound_gates_contradiction:
  "solver_sound (fixed_solver (\<lambda>v. if name v = ''aux_1'' then 1 else 0)) gates_contradiction_problem"
proof (rule fixed_solver_sound [OF gates_contradiction_feasible])
  fix \<tau> assume "feasible gates_contradiction_problem \<tau>"
  then have "\<tau> aux_2 \<le> 0" by (rule gates_contradiction_root_0)
  then show "objective_value gates_contradiction_problem \<tau>
      \<le> objective_value gates_contradiction_problem (\<lambda>v. if name v = ''aux_1'' then 1 else 0)"
    by (simp add: objective_value_def gates_contradiction_problem_def aux_2_def)
qed

text \<open>On a feasible problem a sound solver answers Optimal, with a value for every variable.\<close>

lemma solver_sound_values:
  assumes "solver_sound solver p" and "feasible p \<sigma>" and "solver p = (status, val)"
  shows "status = Optimal \<and> (\<exists>\<tau>. optimal p \<tau> \<and> (\<forall>v \<in> set (problem_vars p). val v = Some (\<tau> v)))"
proof -
  from assms(2) have "\<exists>\<sigma>. feasible p \<sigma>" by blast
  with assms(1,3) show ?thesis by (simp add: solver_sound_def)
qed

section \<open>The solver adapter on unsatisfiable formulas\<close>

text \<open>
  C3. For a AND (NOT a), \<^verbatim>\<open>solve_ilp\<close> does not raise: the problem that \<^verbatim>\<open>sat_to_ilp\<close>
  builds has feasible points (with the root at 0), so a solver that is right about it answers
  Optimal, and \<^verbatim>\<open>solve_ilp\<close> returns a value for \<open>a\<close>.
\<close>

theorem solve_ilp_contradiction:
  assumes enc: "sat_to_ilp contradiction = Inr (p, vs)"
    and snd: "solver_sound solver p"
  shows "\<exists>b. solve_ilp solver contradiction = Inr [(''a'', b)]"
proof -
  from enc have p: "p = contradiction_problem" and vs: "vs = [(''a'', x_a)]"
    by (simp_all add: sat_to_ilp_contradiction)
  obtain status val where sv: "solver p = (status, val)" by (cases "solver p")
  from snd contradiction_feasible sv
  have "status = Optimal \<and>
      (\<exists>\<tau>. optimal p \<tau> \<and> (\<forall>v \<in> set (problem_vars p). val v = Some (\<tau> v)))"
    unfolding p by (rule solver_sound_values)
  then obtain \<tau> where st: "status = Optimal"
    and "\<forall>v \<in> set (problem_vars p). val v = Some (\<tau> v)" by blast
  then have "val x_a = Some (\<tau> x_a)"
    by (simp add: p contradiction_problem_def problem_vars_def objective_vars_def)
  with st sv show ?thesis
    by (simp add: solve_ilp_def enc vs)
qed

theorem solve_ilp_contradiction_witness:
  "sat_to_ilp contradiction = Inr (contradiction_problem, [(''a'', x_a)]) \<and>
   solver_sound (fixed_solver (\<lambda>v. if name v = ''aux_0'' then 1 else 0)) contradiction_problem \<and>
   (\<exists>b. solve_ilp (fixed_solver (\<lambda>v. if name v = ''aux_0'' then 1 else 0)) contradiction
      = Inr [(''a'', b)])"
  using solve_ilp_contradiction [OF sat_to_ilp_contradiction solver_sound_contradiction]
    sat_to_ilp_contradiction solver_sound_contradiction
  by simp

text \<open>
  C2. For (OR a) AND (NOT a), \<^verbatim>\<open>solve_ilp\<close> with a solver that is right about the problem
  returns an assignment, and \<^verbatim>\<open>verify_sat\<close> evaluates the formula to False under it.
\<close>

theorem solve_ilp_unsound:
  assumes enc: "sat_to_ilp gates_contradiction = Inr (p, vs)"
    and snd: "solver_sound solver p"
  shows "\<exists>m. solve_ilp solver gates_contradiction = Inr m \<and>
             verify_sat gates_contradiction (map_of m) = Inr False"
proof -
  from enc have p: "p = gates_contradiction_problem" and vs: "vs = [(''a'', x_a)]"
    by (simp_all add: sat_to_ilp_gates_contradiction)
  obtain status val where sv: "solver p = (status, val)" by (cases "solver p")
  from snd gates_contradiction_feasible sv
  have "status = Optimal \<and>
      (\<exists>\<tau>. optimal p \<tau> \<and> (\<forall>v \<in> set (problem_vars p). val v = Some (\<tau> v)))"
    unfolding p by (rule solver_sound_values)
  then obtain \<tau> where st: "status = Optimal"
    and "\<forall>v \<in> set (problem_vars p). val v = Some (\<tau> v)" by blast
  then have "val x_a = Some (\<tau> x_a)"
    by (simp add: p gates_contradiction_problem_def problem_vars_def objective_vars_def)
  with st sv have "solve_ilp solver gates_contradiction = Inr [(''a'', \<tau> x_a \<noteq> 0)]"
    by (simp add: solve_ilp_def enc vs)
  moreover have "verify_sat gates_contradiction (map_of [(''a'', b)]) = Inr False" for b
    by (simp add: gates_contradiction_def)
  ultimately show ?thesis by blast
qed

theorem solve_ilp_unsound_witness:
  "sat_to_ilp gates_contradiction = Inr (gates_contradiction_problem, [(''a'', x_a)]) \<and>
   solver_sound (fixed_solver (\<lambda>v. if name v = ''aux_1'' then 1 else 0)) gates_contradiction_problem \<and>
   (\<exists>m. solve_ilp (fixed_solver (\<lambda>v. if name v = ''aux_1'' then 1 else 0)) gates_contradiction = Inr m \<and>
        verify_sat gates_contradiction (map_of m) = Inr False)"
  using solve_ilp_unsound [OF sat_to_ilp_gates_contradiction solver_sound_gates_contradiction]
    sat_to_ilp_gates_contradiction solver_sound_gates_contradiction
  by simp

section \<open>The evaluator on gates that mix literals and gates\<close>

lemma verify_all_Str:
  "Str s \<in> set vals \<Longrightarrow> \<exists>e. verify_all vals input = Inl e"
  by (induction vals) (auto split: sum.splits)

text \<open>Any gate with a string operand and a gate operand makes \<^verbatim>\<open>verify_sat\<close> raise.\<close>

lemma verify_sat_mixed_fails:
  assumes "Str s \<in> set vals" and "Set op' ws \<in> set vals"
  shows "\<exists>e. verify_sat (Set op vals) input = Inl e"
proof -
  from assms(2) have "\<not> list_all is_str vals"
    unfolding list_all_iff using is_str.simps(2) by blast
  moreover from assms(1) obtain e where "verify_all vals input = Inl e"
    using verify_all_Str by blast
  ultimately show ?thesis by simp
qed

text \<open>
  C4. On (a AND b) OR c, with every literal given a value, \<^verbatim>\<open>verify_sat\<close> raises
  AttributeError: the recursion reaches the string \<open>c\<close> and reads its \<^verbatim>\<open>values\<close>.
\<close>

theorem verify_sat_nested_and_or:
  "verify_sat nested_and_or [''a'' \<mapsto> True, ''b'' \<mapsto> True, ''c'' \<mapsto> False] = Inl AttributeError"
  by (simp add: nested_and_or_def)

section \<open>A bare literal as the formula\<close>

text \<open>
  C8 as stated fails: \<^verbatim>\<open>verify_sat\<close> on the bare literal \<open>a\<close>, with \<open>a\<close> true in the
  assignment, raises AttributeError.
\<close>

theorem verify_sat_bare_literal_counterexample:
  "verify_sat (Str ''a'') [''a'' \<mapsto> True] = Inl AttributeError"
  by simp

text \<open>
  C8, amended. \<^verbatim>\<open>sat_to_ilp\<close> accepts a bare literal: the problem has no constraint, its
  objective is the literal's decision variable, and the dictionary holds that one variable.
  \<^verbatim>\<open>verify_sat\<close> takes a gate only: on a bare literal it raises AttributeError, whatever
  the assignment.
\<close>

theorem bare_literal:
  "sat_to_ilp (Str n) =
     Inr (\<lparr>pname = ''SAT_to_ILP'', sense = LpMaximize,
           objective = Some (V (LpVariable (''x_'' @ n) 0 1 ''Binary''), ''Satisfiability''),
           constraints = []\<rparr>,
          [(n, LpVariable (''x_'' @ n) 0 1 ''Binary'')]) \<and>
   verify_sat (Str n) input = Inl AttributeError"
  by (simp add: enc_defs)

lemma process_values_length:
  "process_values vals s = Inr (values, s1) \<Longrightarrow> length values = length vals"
  by (induction vals arbitrary: s "values") (auto split: sum.splits)

lemma eval_foldl_Add:
  "eval_exp \<sigma> (foldl Add e (map V vs)) = eval_exp \<sigma> e + sum_list (map \<sigma> vs)"
  by (induction vs arbitrary: e) simp_all

lemma eval_py_sum: "eval_exp \<sigma> (py_sum vs) = sum_list (map \<sigma> vs)"
  by (simp add: py_sum_def eval_foldl_Add)

lemma sum_list_all_1: "\<forall>v \<in> set vs. \<sigma> v = (1::int) \<Longrightarrow> sum_list (map \<sigma> vs) = int (length vs)"
  by (induction vs) simp_all

lemma sum_list_all_0: "\<forall>v \<in> set vs. \<sigma> v = (0::int) \<Longrightarrow> sum_list (map \<sigma> vs) = 0"
  by (induction vs) simp_all

lemma and_shape_sem:
  assumes a: "\<sigma> a \<in> {0, 1}" and vs: "\<forall>v \<in> set vs. \<sigma> v \<in> {0, 1}"
    and h: "list_all (holds \<sigma>) (map (\<lambda>v. LE (V a) (V v)) vs @
              [GE (V a) (Add (Sub (py_sum vs) (Const (int (length vs)))) (Const 1))])"
  shows "(\<sigma> a = 1) = (\<forall>v \<in> set vs. \<sigma> v = 1)"
proof
  assume "\<sigma> a = 1"
  with h have "\<forall>v \<in> set vs. 1 \<le> \<sigma> v" by (simp add: list_all_iff)
  with vs show "\<forall>v \<in> set vs. \<sigma> v = 1" by fastforce
next
  assume "\<forall>v \<in> set vs. \<sigma> v = 1"
  then have "sum_list (map \<sigma> vs) = int (length vs)" by (rule sum_list_all_1)
  with h have "1 \<le> \<sigma> a" by (simp add: eval_py_sum)
  with a show "\<sigma> a = 1" by auto
qed

lemma or_shape_sem:
  assumes a: "\<sigma> a \<in> {0, 1}" and vs: "\<forall>v \<in> set vs. \<sigma> v \<in> {0, 1}"
    and h: "list_all (holds \<sigma>) (map (\<lambda>v. GE (V a) (V v)) vs @ [LE (V a) (py_sum vs)])"
  shows "(\<sigma> a = 1) = (\<exists>v \<in> set vs. \<sigma> v = 1)"
proof
  assume a1: "\<sigma> a = 1"
  show "\<exists>v \<in> set vs. \<sigma> v = 1"
  proof (rule ccontr)
    assume "\<not> (\<exists>v \<in> set vs. \<sigma> v = 1)"
    with vs have "\<forall>v \<in> set vs. \<sigma> v = 0" by auto
    then have "sum_list (map \<sigma> vs) = 0" by (rule sum_list_all_0)
    with h a1 show False by (simp add: eval_py_sum)
  qed
next
  assume "\<exists>v \<in> set vs. \<sigma> v = 1"
  with h have "1 \<le> \<sigma> a" by (auto simp: list_all_iff)
  with a show "\<sigma> a = 1" by auto
qed

lemma not_shape_sem:
  assumes "\<sigma> v \<in> {0, 1}" and "list_all (holds \<sigma>) [EQ (V a) (Sub (Const 1) (V v))]"
  shows "(\<sigma> a = 1) = (\<sigma> v \<noteq> 1)"
  using assms by auto

lemma process_set_gate:
  assumes "process_values vals s = Inr (values, s1)"
    and "gate_constraints op (aux_var_at (count s1)) values = Inr cs"
  shows "process_set (Set op vals) s = Inr (aux_var_at (count s1), emit cs s1)"
  using assms by (simp add: generate_aux_var_def add_constraints_def aux_var_at_def emit_def)

lemma process_values_ab:
  "process_values [Str ''a'', Str ''b''] init_state = Inr ([x_a, x_b], state_ab)"
  by (simp add: state_ab_def init_state_def var_defs Let_def)

lemma count_state_ab: "count state_ab = 0"
  by (simp add: state_ab_def init_state_def)

section \<open>Arity is not validated\<close>

lemma gate_constraints_fails:
  "gate_constraints op a vs = Inl e \<longleftrightarrow> (op = NOT \<and> vs = [] \<and> e = IndexError)"
  by (cases op) (auto split: list.splits)

lemma process_fails:
  "(has_empty_not f \<longrightarrow> process_set f s = Inl IndexError) \<and>
   (\<not> has_empty_not f \<longrightarrow> (\<exists>r. process_set f s = Inr r))"
  "(any_empty_not vals \<longrightarrow> process_values vals s = Inl IndexError) \<and>
   (\<not> any_empty_not vals \<longrightarrow> (\<exists>r. process_values vals s = Inr r))"
proof (induction f s and vals s rule: process_set_process_values.induct)
  case (1 equation s)
  then show ?case by (simp add: Let_def split: option.splits)
next
  case (2 op vals s)
  show ?case
  proof (cases "process_values vals s")
    case (Inl e')
    with 2 show ?thesis by auto
  next
    case (Inr r)
    obtain vs s1 where r: "r = (vs, s1)" by (cases r)
    from Inr r 2 have ne: "\<not> any_empty_not vals" by auto
    from Inr r have len: "length vs = length vals" by (simp add: process_values_length)
    show ?thesis
      using Inr r ne len
      by (cases op; cases vs) (auto simp: generate_aux_var_def split: list.splits)
  qed
next
  case (3 s)
  then show ?case by simp
next
  case (4 v vs s)
  show ?case
  proof (cases "process_set v s")
    case (Inl e')
    with 4 show ?thesis by auto
  next
    case (Inr r)
    obtain x s1 where r: "r = (x, s1)" by (cases r)
    with Inr 4 show ?thesis
      by (auto split: sum.splits)
  qed
qed

text \<open>
  C6 as stated fails: AND with zero operands is encoded, with the one constraint
  \<open>aux_0 \<ge> 0 - 0 + 1\<close>, and is evaluated to True; no error is raised.
\<close>

theorem arity_not_validated_counterexample:
  "sat_to_ilp (Set AND []) =
     Inr (\<lparr>pname = ''SAT_to_ILP'', sense = LpMaximize,
           objective = Some (V aux_0, ''Satisfiability''),
           constraints = [GE (V aux_0) (Add (Sub (Const 0) (Const 0)) (Const 1))]\<rparr>, []) \<and>
   verify_sat (Set AND []) Map.empty = Inr True"
  by (simp add: enc_defs var_defs)

section \<open>Literals without a value\<close>

lemma lookup_KeyError:
  "lookup input v = Inl KeyError \<Longrightarrow> \<exists>n \<in> set (literals v). input n = None"
  by (cases v) (auto split: option.splits)

lemma all_input_KeyError:
  "all_input input vals = Inl KeyError \<Longrightarrow> \<exists>n \<in> set (literals_list vals). input n = None"
  by (induction vals) (auto split: sum.splits if_splits dest: lookup_KeyError)

lemma any_input_KeyError:
  "any_input input vals = Inl KeyError \<Longrightarrow> \<exists>n \<in> set (literals_list vals). input n = None"
  by (induction vals) (auto split: sum.splits if_splits dest: lookup_KeyError)

lemma use_operator_on_values_KeyError:
  "use_operator_on_values (Set op vals) input = Inl KeyError \<Longrightarrow>
     \<exists>n \<in> set (literals_list vals). input n = None"
  by (cases op)
    (auto split: list.splits sum.splits dest: lookup_KeyError all_input_KeyError any_input_KeyError)

lemma use_operator_on_booleans_no_KeyError:
  "use_operator_on_booleans op bs \<noteq> Inl KeyError"
  by (cases op) (auto split: list.splits)

lemma verify_KeyError:
  "verify_sat f input = Inl KeyError \<Longrightarrow> \<exists>n \<in> set (literals f). input n = None"
  "verify_all vals input = Inl KeyError \<Longrightarrow> \<exists>n \<in> set (literals_list vals). input n = None"
proof (induction f input and vals input rule: verify_sat_verify_all.induct)
  case (1 s input)
  then show ?case by simp
next
  case (2 op vals input)
  show ?case
  proof (cases "list_all is_str vals")
    case True
    with 2 show ?thesis by (auto dest: use_operator_on_values_KeyError)
  next
    case False
    with 2 show ?thesis
      by (auto split: sum.splits simp: use_operator_on_booleans_no_KeyError)
  qed
next
  case (3 input)
  then show ?case by simp
next
  case (4 v vs input)
  then show ?case by (auto split: sum.splits)
qed

lemma first_literal_missing:
  assumes "list_all is_str rest" and "input n = None"
  shows "verify_sat (Set op (Str n # rest)) input = Inl KeyError"
  using assms by (cases op) simp_all

text \<open>
  C7 as stated fails: the assignment has no value for \<open>b\<close>, and \<^verbatim>\<open>verify_sat\<close>
  returns False for a AND b, the generator under \<^verbatim>\<open>all\<close> stopping at \<open>a\<close>.
\<close>

theorem missing_literal_counterexample:
  "verify_sat (Set AND [Str ''a'', Str ''b'']) [''a'' \<mapsto> False] = Inr False"
  by simp

section \<open>The state-passing encoder against the closed form\<close>

lemma names_ok_lookup: "names_ok vars \<Longrightarrow> map_of vars n = Some v \<Longrightarrow> v = lit_var n"
  by (auto simp: names_ok_def list_all_iff dest: map_of_SomeD)

lemma names_ok_register: "names_ok vars \<Longrightarrow> names_ok (register vars n)"
  by (simp add: names_ok_def register_def)

lemma names_ok_foldl: "names_ok vars \<Longrightarrow> names_ok (foldl register vars ns)"
  by (induction ns arbitrary: vars) (simp_all add: names_ok_register)

lemma advance_0 [simp]: "advance 0 [] [] s = s"
  by (simp add: advance_def)

lemma advance_advance:
  "advance g2 ns2 cs2 (advance g1 ns1 cs1 s) = advance (g1 + g2) (ns1 @ ns2) (cs1 @ cs2) s"
  by (simp add: advance_def add.assoc)

lemma count_advance [simp]: "count (advance g ns cs s) = count s + g"
  by (simp add: advance_def)

lemma variables_advance [simp]: "variables (advance g ns cs s) = foldl register (variables s) ns"
  by (simp add: advance_def)

lemma operand_vars_length [simp]: "length (operand_vars k vals) = length vals"
  by (induction vals arbitrary: k) simp_all

lemma process_literal:
  assumes "names_ok (variables s)"
  shows "process_set (Str n) s = Inr (lit_var n, advance 0 [n] [] s)"
proof (cases "map_of (variables s) n")
  case None
  then show ?thesis by (simp add: advance_def register_def lit_var_def Let_def)
next
  case (Some v)
  with assms have "v = lit_var n" by (simp add: names_ok_lookup)
  with Some show ?thesis by (simp add: advance_def register_def)
qed

lemma gate_constraints_ok:
  assumes "\<not> (op = NOT \<and> vs = [])"
  shows "gate_constraints op a vs = Inr (gate_shape op a vs)"
  using assms by (cases op; cases vs) (simp_all add: gate_shape_def)

lemma emit_advance: "emit cs (advance g ns cs' s) = advance (g + 1) ns (cs' @ cs) s"
  by (simp add: emit_def advance_def)

lemma process_closed:
  "names_ok (variables s) \<Longrightarrow> \<not> has_empty_not f \<Longrightarrow>
     process_set f s = Inr (root_var (count s) f, advance (gates f) (literals f) (post_order (count s) f) s)"
  "names_ok (variables s) \<Longrightarrow> \<not> any_empty_not vals \<Longrightarrow>
     process_values vals s =
       Inr (operand_vars (count s) vals,
            advance (gates_list vals) (literals_list vals) (post_order_list (count s) vals) s)"
proof (induction f s and vals s rule: process_set_process_values.induct)
  case (1 equation s)
  then show ?case by (simp add: process_literal del: process_set.simps)
next
  case (2 op vals s)
  then have ops: "process_values vals s =
       Inr (operand_vars (count s) vals,
            advance (gates_list vals) (literals_list vals) (post_order_list (count s) vals) s)"
    by simp
  from 2 have "\<not> (op = NOT \<and> operand_vars (count s) vals = [])"
    by (cases vals) auto
  then have "gate_constraints op (aux_var_at (count s + gates_list vals)) (operand_vars (count s) vals)
      = Inr (gate_shape op (aux_var_at (count s + gates_list vals)) (operand_vars (count s) vals))"
    by (rule gate_constraints_ok)
  with process_set_gate [OF ops] show ?case
    by (simp add: emit_advance del: process_set.simps)
next
  case (3 s)
  then show ?case by simp
next
  case (4 v vs s)
  then have v: "process_set v s =
      Inr (root_var (count s) v, advance (gates v) (literals v) (post_order (count s) v) s)"
    by simp
  from 4 have ok: "names_ok (variables (advance (gates v) (literals v) (post_order (count s) v) s))"
    by (simp add: names_ok_foldl)
  from 4 have ne: "\<not> any_empty_not vs" by simp
  from "4.IH"(2) [OF v refl ok ne] v show ?case
    by (simp add: advance_advance del: process_set.simps)
qed

section \<open>Renaming auxiliary variables\<close>

lemma digit_val_digit:
  assumes "d < 10"
  shows "digit_val (digit d) = d"
proof -
  from assms have "d = 0 \<or> d = 1 \<or> d = 2 \<or> d = 3 \<or> d = 4 \<or> d = 5 \<or> d = 6 \<or> d = 7
      \<or> d = 8 \<or> d = 9"
    by arith
  then show ?thesis
    by (elim disjE) (simp_all add: digit_def digit_val_def)
qed

lemma parse_nat_snoc: "parse_nat (ds @ [c]) = 10 * parse_nat ds + digit_val c"
  by (simp add: parse_nat_def)

lemma parse_nat_str_nat: "parse_nat (str_nat n) = n"
proof (induction n rule: str_nat.induct)
  case (1 n)
  show ?case
  proof (cases "n < 10")
    case True
    then show ?thesis by (simp add: str_nat_digit parse_nat_def digit_val_digit)
  next
    case False
    then have "str_nat n = str_nat (n div 10) @ [digit (n mod 10)]"
      by (subst str_nat.simps) simp
    with False 1 show ?thesis
      by (simp add: parse_nat_snoc digit_val_digit)
  qed
qed

lemma aux_var_at_eq: "(aux_var_at j = aux_var_at k) = (j = k)"
proof
  assume "aux_var_at j = aux_var_at k"
  then have "str_nat j = str_nat k" by (simp add: aux_var_at_def)
  then have "parse_nat (str_nat j) = parse_nat (str_nat k)" by simp
  then show "j = k" by (simp add: parse_nat_str_nat)
qed simp

lemma shift_aux_var_at: "shift_var d (aux_var_at k) = aux_var_at (k + d)"
  by (simp add: shift_var_def is_aux_def aux_var_at_def parse_nat_str_nat)

lemma shift_lit_var: "shift_var d (lit_var n) = lit_var n"
  by (simp add: shift_var_def is_aux_def lit_var_def)

lemma shift_root_var: "shift_var d (root_var k f) = root_var (k + d) f"
  by (cases f) (simp_all add: shift_aux_var_at shift_lit_var add.commute add.left_commute)

lemma shift_operand_vars: "map (shift_var d) (operand_vars k vals) = operand_vars (k + d) vals"
  by (induction vals arbitrary: k) (simp_all add: shift_root_var add.commute add.left_commute)

lemma rename_foldl_Add:
  "rename_exp \<rho> (foldl Add e (map V vs)) = foldl Add (rename_exp \<rho> e) (map V (map \<rho> vs))"
  by (induction vs arbitrary: e) simp_all

lemma rename_py_sum: "rename_exp \<rho> (py_sum vs) = py_sum (map \<rho> vs)"
  by (simp add: py_sum_def rename_foldl_Add)

lemma rename_gate_shape:
  "map (rename_con \<rho>) (gate_shape op a vs) = gate_shape op (\<rho> a) (map \<rho> vs)"
  by (cases op; cases vs) (simp_all add: gate_shape_def rename_py_sum comp_def)

lemma shift_post_order:
  "map (rename_con (shift_var d)) (post_order k f) = post_order (k + d) f"
  "map (rename_con (shift_var d)) (post_order_list k vals) = post_order_list (k + d) vals"
proof (induction k f and k vals rule: post_order_post_order_list.induct)
  case (2 k op vals)
  then show ?case
    by (simp add: rename_gate_shape shift_aux_var_at shift_operand_vars add.commute add.left_commute)
next
  case (4 k v vs)
  then show ?case by (simp add: add.commute add.left_commute)
qed simp_all

lemma gate_shape_length:
  "vs \<noteq> [] \<or> op \<noteq> NOT \<Longrightarrow> length (gate_shape op a vs) = (if op = NOT then 1 else length vs + 1)"
  by (cases op; cases vs) (simp_all add: gate_shape_def)

lemma post_order_length:
  "\<not> has_empty_not f \<Longrightarrow> length (post_order k f) = constraint_count f"
  "\<not> any_empty_not vals \<Longrightarrow> length (post_order_list k vals) = constraint_count_list vals"
proof (induction k f and k vals rule: post_order_post_order_list.induct)
  case (2 k op vals)
  then have "operand_vars k vals \<noteq> [] \<or> op \<noteq> NOT" by (cases vals) auto
  from gate_shape_length [OF this] 2 show ?case by simp
qed simp_all

lemma names_ok_init: "names_ok (variables init_state)"
  by (simp add: names_ok_def init_state_def)

section \<open>Determinism of the encoding\<close>

text \<open>
  C9. \<^verbatim>\<open>sat_to_ilp\<close> starts every call from a counter at 0 and an empty dictionary, so
  its result is a function of the formula alone: the objective is the variable of the root,
  the constraints are those of the gates in post-order, gate \<open>i\<close> in that order holding
  the auxiliary variable \<open>aux_i\<close>, and the dictionary lists the literals in the order of
  their first occurrence. The number of constraints depends on the formula only. Encoding
  the same formula from any other state (another counter value) gives the same constraints
  up to the renaming of auxiliary variables that moves their indices by the counter, and
  that renaming keeps distinct auxiliary variables distinct.
\<close>

theorem encoding_deterministic:
  assumes "\<not> has_empty_not f"
  shows "sat_to_ilp f =
      Inr (\<lparr>pname = ''SAT_to_ILP'', sense = LpMaximize,
            objective = Some (V (root_var 0 f), ''Satisfiability''),
            constraints = post_order 0 f\<rparr>,
           foldl register [] (literals f)) \<and>
    length (post_order 0 f) = constraint_count f \<and>
    (names_ok (variables s) \<longrightarrow>
       process_set f s =
         Inr (shift_var (count s) (root_var 0 f),
              advance (gates f) (literals f)
                (map (rename_con (shift_var (count s))) (post_order 0 f)) s)) \<and>
    (shift_var d (aux_var_at j) = shift_var d (aux_var_at k)) = (j = k)"
proof (intro conjI impI)
  from process_closed(1) [OF names_ok_init assms]
  show "sat_to_ilp f =
      Inr (\<lparr>pname = ''SAT_to_ILP'', sense = LpMaximize,
            objective = Some (V (root_var 0 f), ''Satisfiability''),
            constraints = post_order 0 f\<rparr>,
           foldl register [] (literals f))"
    by (simp add: sat_to_ilp_def init_state_def advance_def)
next
  from assms show "length (post_order 0 f) = constraint_count f"
    by (rule post_order_length)
next
  assume "names_ok (variables s)"
  from process_closed(1) [OF this assms]
  show "process_set f s =
         Inr (shift_var (count s) (root_var 0 f),
              advance (gates f) (literals f)
                (map (rename_con (shift_var (count s))) (post_order 0 f)) s)"
    by (simp add: shift_root_var shift_post_order)
next
  show "(shift_var d (aux_var_at j) = shift_var d (aux_var_at k)) = (j = k)"
    by (simp add: shift_aux_var_at aux_var_at_eq)
qed

lemma complex_nested_ok: "\<not> has_empty_not complex_nested"
  by (simp add: complex_nested_def)

lemma complex_nested_post_order:
  "post_order 0 complex_nested = constraints complex_nested_problem"
  by (simp add: complex_nested_def complex_nested_problem_def gate_shape_def aux_var_at_def
      lit_var_def var_defs x_c_def aux_3_def str_nat_digit digit_def py_sum_def)

theorem encoding_deterministic_witness:
  "\<not> has_empty_not complex_nested \<and>
   sat_to_ilp complex_nested =
     Inr (complex_nested_problem, [(''a'', x_a), (''b'', x_b), (''c'', x_c)]) \<and>
   length (constraints complex_nested_problem) = 8 \<and>
   constraint_count complex_nested = 8 \<and>
   names_ok (variables state_after_and) \<and>
   count state_after_and = 1 \<and>
   shift_var 1 aux_3 = aux_4 \<and>
   process_set complex_nested state_after_and =
     Inr (aux_4, advance 4 [''a'', ''b'', ''c'']
       (map (rename_con (shift_var 1)) (constraints complex_nested_problem)) state_after_and)"
proof -
  have r: "root_var 0 complex_nested = aux_3"
    by (simp add: complex_nested_def aux_var_at_def aux_3_def str_nat_digit digit_def)
  have l: "foldl register [] (literals complex_nested) = [(''a'', x_a), (''b'', x_b), (''c'', x_c)]"
    by (simp add: complex_nested_def register_def lit_var_def var_defs x_c_def)
  have l2: "register (register (register [] ''a'') ''b'') ''c'' = [(''a'', x_a), (''b'', x_b), (''c'', x_c)]"
    by (simp add: register_def lit_var_def var_defs x_c_def)
  have n: "names_ok (variables state_after_and)"
    by (simp add: names_ok_def state_after_and_def emit_def state_ab_def lit_var_def var_defs)
  have c: "count state_after_and = 1"
    by (simp add: state_after_and_def emit_def count_state_ab)
  have a: "aux_var_at 3 = aux_3" "aux_var_at 4 = aux_4"
    by (simp_all add: aux_var_at_def aux_3_def aux_4_def str_nat_digit digit_def)
  have "shift_var 1 (aux_var_at 3) = aux_var_at (3 + 1)"
    by (rule shift_aux_var_at)
  then have sh: "shift_var 1 aux_3 = aux_4"
    by (simp add: a)
  have p: "\<lparr>pname = ''SAT_to_ILP'', sense = LpMaximize,
      objective = Some (V aux_3, ''Satisfiability''),
      constraints = constraints complex_nested_problem\<rparr> = complex_nested_problem"
    by (simp add: complex_nested_problem_def)
  have k: "constraint_count complex_nested = 8" "gates complex_nested = 4"
    "literals complex_nested = [''a'', ''b'', ''c'']"
    by (simp_all add: complex_nested_def)
  from encoding_deterministic [OF complex_nested_ok, of state_after_and] n
  have "sat_to_ilp complex_nested =
      Inr (\<lparr>pname = ''SAT_to_ILP'', sense = LpMaximize,
            objective = Some (V (root_var 0 complex_nested), ''Satisfiability''),
            constraints = post_order 0 complex_nested\<rparr>,
           foldl register [] (literals complex_nested))"
    and "length (post_order 0 complex_nested) = constraint_count complex_nested"
    and "process_set complex_nested state_after_and =
      Inr (shift_var (count state_after_and) (root_var 0 complex_nested),
        advance (gates complex_nested) (literals complex_nested)
          (map (rename_con (shift_var (count state_after_and))) (post_order 0 complex_nested))
          state_after_and)"
    by blast+
  then have "sat_to_ilp complex_nested =
      Inr (complex_nested_problem, [(''a'', x_a), (''b'', x_b), (''c'', x_c)])"
    and "length (constraints complex_nested_problem) = 8"
    and "process_set complex_nested state_after_and =
      Inr (aux_4, advance 4 [''a'', ''b'', ''c'']
        (map (rename_con (shift_var 1)) (constraints complex_nested_problem)) state_after_and)"
    unfolding r l c k sh complex_nested_post_order p by (simp_all add: l2)
  with complex_nested_ok n c sh k(1) show ?thesis
    by (simp add: l2 del: process_set.simps)
qed

section \<open>The root variable is the objective, not a constraint\<close>

text \<open>
  C1. For OR over the literal a, a satisfiable formula, \<^verbatim>\<open>sat_to_ilp\<close> returns a
  maximisation problem whose objective is the root variable \<open>aux_0\<close> and whose constraints
  are the two of the OR gate; no constraint fixes the root to 1, and the point that gives
  every variable the value 0 is feasible with the root at 0.
\<close>

theorem root_only_maximised:
  "sat_to_ilp single_or = Inr (single_or_problem, [(''a'', x_a)]) \<and>
   sense single_or_problem = LpMaximize \<and>
   objective single_or_problem = Some (V aux_0, ''Satisfiability'') \<and>
   constraints single_or_problem = [GE (V aux_0) (V x_a), LE (V aux_0) (Add (Const 0) (V x_a))] \<and>
   feasible single_or_problem (\<lambda>v. 0) \<and>
   objective_value single_or_problem (\<lambda>v. 0) = 0"
  by (simp add: single_or_def single_or_problem_def enc_defs var_defs feasible_def
      problem_vars_def objective_vars_def in_bounds_def objective_value_def)

section \<open>The problem of an encoded formula is always feasible\<close>

lemma gate_values_length [simp]:
  "length (gate_values a f) = gates f"
  "length (gate_values_list a vals) = gates_list vals"
  by (induction a f and a vals rule: gate_values_gate_values_list.induct) simp_all

lemma truths_length [simp]: "length (truths a vals) = length vals"
  by (induction vals) simp_all

lemma of_truth_bounds: "0 \<le> of_truth b" "of_truth b \<le> 1"
  by (cases b; simp)+

lemma sum_bits_le: "sum_list (map of_truth bs) \<le> int (length bs)"
proof (induction bs)
  case (Cons b bs)
  with of_truth_bounds(2) [of b] show ?case by simp
qed simp

lemma sum_bits_nonneg: "0 \<le> sum_list (map of_truth bs)"
proof (induction bs)
  case (Cons b bs)
  with of_truth_bounds(1) [of b] show ?case by simp
qed simp

lemma sum_bits_all: "list_all (\<lambda>b. b) bs \<Longrightarrow> sum_list (map of_truth bs) = int (length bs)"
  by (induction bs) simp_all

lemma sum_bits_not_all: "\<not> list_all (\<lambda>b. b) bs \<Longrightarrow> sum_list (map of_truth bs) < int (length bs)"
proof (induction bs)
  case Nil
  then show ?case by simp
next
  case (Cons b bs)
  show ?case
  proof (cases b)
    case True
    with Cons show ?thesis by simp
  next
    case False
    with sum_bits_le [of bs] show ?thesis by simp
  qed
qed

lemma sum_bits_ex: "list_ex (\<lambda>b. b) bs \<Longrightarrow> 1 \<le> sum_list (map of_truth bs)"
proof (induction bs)
  case Nil
  then show ?case by simp
next
  case (Cons b bs)
  with sum_bits_nonneg [of bs] show ?case by (cases b) auto
qed

lemma bits_all_1: "list_all (\<lambda>b. b) bs \<Longrightarrow> y \<in> set (map of_truth bs) \<Longrightarrow> y = 1"
  by (auto simp: list_all_iff)

lemma bits_all_0: "\<not> list_ex (\<lambda>b. b) bs \<Longrightarrow> y \<in> set (map of_truth bs) \<Longrightarrow> y = 0"
  by (auto simp: list_ex_iff)

lemma bits_bounds: "y \<in> set (map of_truth bs) \<Longrightarrow> 0 \<le> y \<and> y \<le> 1"
  by (auto simp: of_truth_bounds)

text \<open>The constraints of one gate hold when the variables carry the truth values.\<close>

lemma gate_shape_holds:
  assumes vs: "map \<sigma> vs = map of_truth bs"
    and a: "\<sigma> x = of_truth (case op of
        AND \<Rightarrow> list_all (\<lambda>b. b) bs
      | OR \<Rightarrow> list_ex (\<lambda>b. b) bs
      | NOT \<Rightarrow> (case bs of [] \<Rightarrow> False | b # _ \<Rightarrow> \<not> b))"
  shows "list_all (holds \<sigma>) (gate_shape op x vs)"
proof (cases op)
  case AND
  have s: "sum_list (map \<sigma> vs) = sum_list (map of_truth bs)" by (simp add: vs)
  have len: "length vs = length bs" using vs by (metis length_map)
  have mem: "\<sigma> v \<in> set (map of_truth bs)" if "v \<in> set vs" for v
    using that vs by (metis image_eqI set_map)
  show ?thesis
  proof (cases "list_all (\<lambda>b. b) bs")
    case True
    with a AND have x: "\<sigma> x = 1" by simp
    from True mem have "\<forall>v \<in> set vs. \<sigma> v = 1" by (blast dest: bits_all_1)
    with x sum_bits_all [OF True] show ?thesis
      by (simp add: AND gate_shape_def list_all_iff eval_py_sum s len)
  next
    case False
    with a AND have x: "\<sigma> x = 0" by simp
    from mem have "\<forall>v \<in> set vs. 0 \<le> \<sigma> v" by (blast dest: bits_bounds)
    with x sum_bits_not_all [OF False] show ?thesis
      by (simp add: AND gate_shape_def list_all_iff eval_py_sum s len)
  qed
next
  case OR
  have s: "sum_list (map \<sigma> vs) = sum_list (map of_truth bs)" by (simp add: vs)
  have mem: "\<sigma> v \<in> set (map of_truth bs)" if "v \<in> set vs" for v
    using that vs by (metis image_eqI set_map)
  show ?thesis
  proof (cases "list_ex (\<lambda>b. b) bs")
    case True
    with a OR have x: "\<sigma> x = 1" by simp
    from mem have "\<forall>v \<in> set vs. \<sigma> v \<le> 1" by (blast dest: bits_bounds)
    with x sum_bits_ex [OF True] show ?thesis
      by (simp add: OR gate_shape_def list_all_iff eval_py_sum s)
  next
    case False
    with a OR have x: "\<sigma> x = 0" by simp
    from False mem have "\<forall>v \<in> set vs. \<sigma> v = 0" by (blast dest: bits_all_0)
    with x sum_bits_nonneg [of bs] show ?thesis
      by (simp add: OR gate_shape_def list_all_iff eval_py_sum s)
  qed
next
  case NOT
  show ?thesis
  proof (cases vs)
    case Nil
    then show ?thesis by (simp add: NOT gate_shape_def)
  next
    case (Cons v rest)
    with vs obtain b rest' where bs: "bs = b # rest'" and "\<sigma> v = of_truth b"
      by (cases bs) auto
    with a NOT Cons show ?thesis
      by (cases b) (simp_all add: gate_shape_def)
  qed
qed

text \<open>
  A point that gives the literal variables the values of an assignment and the auxiliary
  variables, numbered from \<open>k\<close>, the truth values of the gates in post-order satisfies
  every constraint of the formula, and gives the formula's variable its truth value.
\<close>

lemma post_order_holds:
  "(\<And>n. \<sigma> (lit_var n) = of_truth (a n)) \<Longrightarrow>
   (\<And>i. i < gates f \<Longrightarrow> \<sigma> (aux_var_at (k + i)) = of_truth (gate_values a f ! i)) \<Longrightarrow>
     list_all (holds \<sigma>) (post_order k f) \<and> \<sigma> (root_var k f) = of_truth (truth a f)"
  "(\<And>n. \<sigma> (lit_var n) = of_truth (a n)) \<Longrightarrow>
   (\<And>i. i < gates_list vals \<Longrightarrow> \<sigma> (aux_var_at (k + i)) = of_truth (gate_values_list a vals ! i)) \<Longrightarrow>
     list_all (holds \<sigma>) (post_order_list k vals) \<and>
     map \<sigma> (operand_vars k vals) = map of_truth (truths a vals)"
proof (induction k f and k vals rule: post_order_post_order_list.induct)
  case (1 k n)
  then show ?case by simp
next
  case (2 k op vals)
  have "\<sigma> (aux_var_at (k + i)) = of_truth (gate_values_list a vals ! i)" if "i < gates_list vals" for i
    using "2.prems"(2) [of i] that by (simp add: nth_append)
  with 2 have ops: "list_all (holds \<sigma>) (post_order_list k vals)"
    and vs: "map \<sigma> (operand_vars k vals) = map of_truth (truths a vals)"
    by simp_all
  from "2.prems"(2) [of "gates_list vals"]
  have x: "\<sigma> (aux_var_at (k + gates_list vals)) = of_truth (truth a (Set op vals))"
    by (simp add: nth_append)
  then have "\<sigma> (aux_var_at (k + gates_list vals)) = of_truth (case op of
        AND \<Rightarrow> list_all (\<lambda>b. b) (truths a vals)
      | OR \<Rightarrow> list_ex (\<lambda>b. b) (truths a vals)
      | NOT \<Rightarrow> (case truths a vals of [] \<Rightarrow> False | b # _ \<Rightarrow> \<not> b))"
    by simp
  with vs have "list_all (holds \<sigma>)
      (gate_shape op (aux_var_at (k + gates_list vals)) (operand_vars k vals))"
    by (rule gate_shape_holds)
  with ops x show ?case by simp
next
  case (3 k)
  then show ?case by simp
next
  case (4 k v vs)
  have h1: "\<sigma> (aux_var_at (k + i)) = of_truth (gate_values a v ! i)" if "i < gates v" for i
    using "4.prems"(2) [of i] that by (simp add: nth_append)
  have h2: "\<sigma> (aux_var_at (k + gates v + i)) = of_truth (gate_values_list a vs ! i)"
    if "i < gates_list vs" for i
    using "4.prems"(2) [of "gates v + i"] that by (simp add: nth_append add.assoc)
  from "4.IH"(1) [OF "4.prems"(1) h1] "4.IH"(2) [OF "4.prems"(1) h2]
  show ?case by simp
qed

lemma solution_lit_var: "solution a f (lit_var n) = of_truth (a n)"
  by (simp add: solution_def is_aux_def lit_var_def)

lemma solution_aux_var_at:
  "i < gates f \<Longrightarrow> solution a f (aux_var_at i) = of_truth (gate_values a f ! i)"
  by (simp add: solution_def is_aux_def aux_var_at_def parse_nat_str_nat)

lemma solution_bounds: "0 \<le> solution a f v \<and> solution a f v \<le> 1"
  by (simp add: solution_def Let_def of_truth_bounds)

lemma binary_root_var: "binary (root_var k f)"
  by (cases f) (simp_all add: binary_def lit_var_def aux_var_at_def)

lemma binary_operand_vars: "v \<in> set (operand_vars k vals) \<Longrightarrow> binary v"
  by (induction vals arbitrary: k) (auto simp: binary_root_var)

lemma vars_foldl_Add:
  "set (vars_exp (foldl Add e (map V vs))) = set (vars_exp e) \<union> set vs"
  by (induction vs arbitrary: e) auto

lemma vars_py_sum: "set (vars_exp (py_sum vs)) = set vs"
  by (simp add: py_sum_def vars_foldl_Add)

lemma vars_gate_shape:
  assumes "v \<in> set (concat (map vars_con (gate_shape op x vs)))"
  shows "v = x \<or> v \<in> set vs"
proof (cases op)
  case AND
  with assms show ?thesis by (auto simp: gate_shape_def vars_py_sum split: if_splits)
next
  case OR
  with assms show ?thesis by (auto simp: gate_shape_def vars_py_sum split: if_splits)
next
  case NOT
  with assms show ?thesis by (cases vs) (auto simp: gate_shape_def)
qed

lemma binary_post_order:
  "v \<in> set (concat (map vars_con (post_order k f))) \<Longrightarrow> binary v"
  "v \<in> set (concat (map vars_con (post_order_list k vals))) \<Longrightarrow> binary v"
proof (induction k f and k vals rule: post_order_post_order_list.induct)
  case (2 k op vals)
  from "2.prems" consider "v \<in> set (concat (map vars_con (post_order_list k vals)))"
    | "v \<in> set (concat (map vars_con
        (gate_shape op (aux_var_at (k + gates_list vals)) (operand_vars k vals))))"
    by auto
  then show ?case
  proof cases
    case 1
    then show ?thesis by (rule "2.IH")
  next
    case 2
    then have "v = aux_var_at (k + gates_list vals) \<or> v \<in> set (operand_vars k vals)"
      by (rule vars_gate_shape)
    then show ?thesis
      by (auto simp: binary_operand_vars) (simp add: binary_def aux_var_at_def)
  qed
next
  case (4 k v' vs)
  then show ?case by auto
qed simp_all

lemma binary_constraint_vars:
  "c \<in> set (post_order k f) \<Longrightarrow> v \<in> set (vars_con c) \<Longrightarrow> binary v"
  using binary_post_order(1) [of v k f] by auto

text \<open>
  For every formula that \<^verbatim>\<open>sat_to_ilp\<close> encodes and every assignment \<open>a\<close> of its
  literals, the returned problem has a feasible point that extends \<open>a\<close>; its objective value
  is the truth value of the formula under \<open>a\<close>.
\<close>

lemma encoding_feasible:
  assumes ok: "\<not> has_empty_not f" and enc: "sat_to_ilp f = Inr (p, vs)"
  shows "feasible p (solution a f) \<and> objective_value p (solution a f) = of_truth (truth a f)"
proof -
  from process_closed(1) [OF names_ok_init ok] enc
  have p: "p = \<lparr>pname = ''SAT_to_ILP'', sense = LpMaximize,
            objective = Some (V (root_var 0 f), ''Satisfiability''),
            constraints = post_order 0 f\<rparr>"
    by (simp add: sat_to_ilp_def init_state_def advance_def)
  have "list_all (holds (solution a f)) (post_order 0 f) \<and>
      solution a f (root_var 0 f) = of_truth (truth a f)"
    by (rule post_order_holds(1)) (simp_all add: solution_lit_var solution_aux_var_at)
  moreover have "in_bounds (solution a f) v" if "binary v" for v
    using that solution_bounds [of a f v] by (simp add: in_bounds_def binary_def)
  then have "list_all (in_bounds (solution a f)) (problem_vars p)"
    by (auto simp: list_all_iff p problem_vars_def objective_vars_def
        binary_root_var dest: binary_constraint_vars)
  ultimately show ?thesis
    by (simp add: feasible_def objective_value_def p)
qed

text \<open>
  Hence \<^verbatim>\<open>solve_ilp\<close>, with a solver that is right about the problem, never raises
  \<^verbatim>\<open>Exception("No solution")\<close> for a formula that \<^verbatim>\<open>sat_to_ilp\<close> encodes.
\<close>

lemma solve_ilp_never_no_solution:
  assumes ok: "\<not> has_empty_not f" and enc: "sat_to_ilp f = Inr (p, vs)"
    and snd: "solver_sound solver p"
  shows "solve_ilp solver f \<noteq> Inl NoSolution"
proof -
  obtain status val where sv: "solver p = (status, val)" by (cases "solver p")
  from encoding_feasible [OF ok enc, of "\<lambda>n. False"]
  have "feasible p (solution (\<lambda>n. False) f)" by simp
  with snd sv have "status = Optimal"
    using solver_sound_values by blast
  moreover have "read_values val xs \<noteq> Inl NoSolution" for xs
    by (induction xs) (auto split: option.splits sum.splits)
  ultimately show ?thesis
    by (simp add: solve_ilp_def enc sv)
qed

section \<open>The constraints of every gate node\<close>

lemma unary_not_no_empty:
  "unary_not f \<Longrightarrow> \<not> has_empty_not f"
  "unary_not_list vals \<Longrightarrow> \<not> any_empty_not vals"
  by (induction f and vals rule: unary_not_unary_not_list.induct) auto

lemma gate_nodes_length:
  "length (gate_nodes k f) = gates f"
  "length (gate_nodes_list k vals) = gates_list vals"
  by (induction k f and k vals rule: gate_nodes_gate_nodes_list.induct) simp_all

lemma gate_shape_spec:
  assumes "op = NOT \<longrightarrow> length vs = 1"
  shows "gate_shape op a vs = spec_constraints (a, op, vs)"
proof (cases op)
  case NOT
  with assms obtain v where "vs = [v]" by (cases vs) auto
  with NOT show ?thesis by (simp add: gate_shape_def)
qed (simp_all add: gate_shape_def)

lemma post_order_gate_nodes:
  "unary_not f \<Longrightarrow> post_order k f = concat (map spec_constraints (gate_nodes k f))"
  "unary_not_list vals \<Longrightarrow>
     post_order_list k vals = concat (map spec_constraints (gate_nodes_list k vals))"
proof (induction k f and k vals rule: post_order_post_order_list.induct)
  case (2 k op vals)
  then have "op = NOT \<longrightarrow> length (operand_vars k vals) = 1" by simp
  from gate_shape_spec [OF this] 2 show ?case by simp
qed simp_all

lemma gate_nodes_unary:
  "unary_not f \<Longrightarrow> (a, NOT, vs) \<in> set (gate_nodes k f) \<Longrightarrow> length vs = 1"
  "unary_not_list vals \<Longrightarrow> (a, NOT, vs) \<in> set (gate_nodes_list k vals) \<Longrightarrow> length vs = 1"
  by (induction k f and k vals rule: gate_nodes_gate_nodes_list.induct) auto

lemma spec_constraints_sem:
  assumes un: "op = NOT \<longrightarrow> length vs = 1"
    and a: "\<sigma> a \<in> {0, 1}" and vs: "\<forall>v \<in> set vs. \<sigma> v \<in> {0, 1}"
    and h: "list_all (holds \<sigma>) (spec_constraints (a, op, vs))"
  shows "(\<sigma> a = 1) = spec_gate \<sigma> (a, op, vs)"
proof (cases op)
  case AND
  with a vs h show ?thesis using and_shape_sem [of \<sigma> a vs] by simp
next
  case OR
  with a vs h show ?thesis using or_shape_sem [of \<sigma> a vs] by simp
next
  case NOT
  with un obtain v where v: "vs = [v]" by (cases vs) auto
  with NOT vs h show ?thesis using not_shape_sem [of \<sigma> v a] by simp
qed

lemma bits_all_iff:
  "map \<sigma> vs = map of_truth bs \<Longrightarrow> (\<forall>v \<in> set vs. \<sigma> v = 1) = list_all (\<lambda>b. b) bs"
proof (induction vs arbitrary: bs)
  case Nil
  then show ?case by simp
next
  case (Cons v vs)
  then obtain b bs' where "bs = b # bs'" by (cases bs) auto
  with Cons show ?case by (cases b) auto
qed

lemma bits_ex_iff:
  "map \<sigma> vs = map of_truth bs \<Longrightarrow> (\<exists>v \<in> set vs. \<sigma> v = 1) = list_ex (\<lambda>b. b) bs"
proof (induction vs arbitrary: bs)
  case Nil
  then show ?case by simp
next
  case (Cons v vs)
  then obtain b bs' where "bs = b # bs'" by (cases bs) auto
  with Cons show ?case by (cases b) auto
qed

lemma of_truth_eq_1: "x \<in> {0, 1} \<Longrightarrow> x = of_truth (x = 1)"
  by auto

text \<open>
  Conversely to \<open>post_order_holds\<close>: a 0/1 point that satisfies the constraints of a
  formula gives the formula's variable the truth value of the formula under the assignment
  read off the literal variables.
\<close>

lemma post_order_sound:
  "(\<And>v. \<sigma> v \<in> {0, 1}) \<Longrightarrow> unary_not f \<Longrightarrow> list_all (holds \<sigma>) (post_order k f) \<Longrightarrow>
     \<sigma> (root_var k f) = of_truth (truth (\<lambda>n. \<sigma> (lit_var n) = 1) f)"
  "(\<And>v. \<sigma> v \<in> {0, 1}) \<Longrightarrow> unary_not_list vals \<Longrightarrow>
     list_all (holds \<sigma>) (post_order_list k vals) \<Longrightarrow>
     map \<sigma> (operand_vars k vals) = map of_truth (truths (\<lambda>n. \<sigma> (lit_var n) = 1) vals)"
proof (induction k f and k vals rule: post_order_post_order_list.induct)
  case (1 k n)
  from "1.prems"(1) [of "lit_var n"] show ?case by auto
next
  case (2 k op vals)
  let ?a = "aux_var_at (k + gates_list vals)"
  let ?vs = "operand_vars k vals"
  let ?bs = "truths (\<lambda>n. \<sigma> (lit_var n) = 1) vals"
  from 2 have vs: "map \<sigma> ?vs = map of_truth ?bs" by simp
  from "2.prems" have un: "op = NOT \<longrightarrow> length ?vs = 1" by simp
  from "2.prems" have "list_all (holds \<sigma>) (gate_shape op ?a ?vs)" by simp
  then have h: "list_all (holds \<sigma>) (spec_constraints (?a, op, ?vs))"
    by (simp add: gate_shape_spec [OF un])
  have a01: "\<sigma> ?a \<in> {0, 1}" by (rule "2.prems"(1))
  have v01: "\<forall>v \<in> set ?vs. \<sigma> v \<in> {0, 1}" using "2.prems"(1) by blast
  have "(\<sigma> ?a = 1) = spec_gate \<sigma> (?a, op, ?vs)"
    using un a01 v01 h by (rule spec_constraints_sem)
  also have "\<dots> = truth (\<lambda>n. \<sigma> (lit_var n) = 1) (Set op vals)"
  proof (cases op)
    case AND
    with bits_all_iff [OF vs] show ?thesis by simp
  next
    case OR
    with bits_ex_iff [OF vs] show ?thesis by simp
  next
    case NOT
    with un obtain v where v: "?vs = [v]" by (cases ?vs) auto
    with vs obtain b where b: "?bs = [b]" by (cases ?bs) auto
    with v vs have "\<sigma> v = of_truth b" by simp
    with NOT v b show ?thesis by (cases b) simp_all
  qed
  finally have "(\<sigma> ?a = 1) = truth (\<lambda>n. \<sigma> (lit_var n) = 1) (Set op vals)" .
  with of_truth_eq_1 [OF a01] show ?case by simp
next
  case (3 k)
  then show ?case by simp
next
  case (4 k v vs)
  then show ?case by simp
qed

text \<open>
  C5. For every formula whose NOT gates have one operand, \<^verbatim>\<open>sat_to_ilp\<close> returns as
  constraints exactly, gate node after gate node in post-order, the constraints that the
  specification states for the node's operator, on the node's auxiliary variable and the
  variables of its operands: for AND, \<open>a \<le> v\<close> for each operand variable and
  \<open>a \<ge> sum - n + 1\<close>; for OR, \<open>a \<ge> v\<close> for each and \<open>a \<le> sum\<close>; for NOT,
  \<open>a = 1 - v\<close>. For every gate node, every 0/1 assignment to its auxiliary variable and
  its operand variables that satisfies the node's constraints has \<open>a = 1\<close> if and only if
  the gate's boolean function of the operand values is true. Hence every 0/1 point that
  satisfies all the returned constraints gives the objective, the root variable, the truth
  value of the formula under the assignment it gives the literals.
\<close>

theorem gate_encoding:
  assumes "unary_not f"
  shows "\<exists>p vars. sat_to_ilp f = Inr (p, vars) \<and>
     constraints p = concat (map spec_constraints (gate_nodes 0 f)) \<and>
     length (gate_nodes 0 f) = gates f \<and>
     (\<forall>(a, op, values) \<in> set (gate_nodes 0 f). \<forall>\<sigma>.
        \<sigma> a \<in> {0, 1} \<and> (\<forall>v \<in> set values. \<sigma> v \<in> {0, 1}) \<and>
        list_all (holds \<sigma>) (spec_constraints (a, op, values)) \<longrightarrow>
        (\<sigma> a = 1) = spec_gate \<sigma> (a, op, values)) \<and>
     (\<forall>\<sigma>. (\<forall>v. \<sigma> v \<in> {0, 1}) \<and> list_all (holds \<sigma>) (constraints p) \<longrightarrow>
        objective_value p \<sigma> = of_truth (truth (\<lambda>n. \<sigma> (lit_var n) = 1) f))"
proof -
  from assms have ok: "\<not> has_empty_not f" by (rule unary_not_no_empty)
  let ?p = "\<lparr>pname = ''SAT_to_ILP'', sense = LpMaximize,
            objective = Some (V (root_var 0 f), ''Satisfiability''),
            constraints = post_order 0 f\<rparr>"
  from process_closed(1) [OF names_ok_init ok]
  have enc: "sat_to_ilp f = Inr (?p, foldl register [] (literals f))"
    by (simp add: sat_to_ilp_def init_state_def advance_def)
  have cs: "constraints ?p = concat (map spec_constraints (gate_nodes 0 f))"
    using assms by (simp add: post_order_gate_nodes)
  have each: "(\<sigma> a = 1) = spec_gate \<sigma> (a, op, vs)"
    if "(a, op, vs) \<in> set (gate_nodes 0 f)"
      and s: "\<sigma> a \<in> {0, 1}" "\<forall>v \<in> set vs. \<sigma> v \<in> {0, 1}"
        "list_all (holds \<sigma>) (spec_constraints (a, op, vs))" for a op vs \<sigma>
  proof -
    from that(1) assms have "op = NOT \<longrightarrow> length vs = 1"
      by (auto dest: gate_nodes_unary(1))
    from spec_constraints_sem [OF this s] show ?thesis .
  qed
  have whole: "objective_value ?p \<sigma> = of_truth (truth (\<lambda>n. \<sigma> (lit_var n) = 1) f)"
    if "\<forall>v. \<sigma> v \<in> {0, 1}" "list_all (holds \<sigma>) (constraints ?p)" for \<sigma>
    using post_order_sound(1) [of \<sigma> f 0] that assms by (simp add: objective_value_def)
  show ?thesis
  proof (intro exI conjI)
    show "sat_to_ilp f = Inr (?p, foldl register [] (literals f))" by (rule enc)
    show "constraints ?p = concat (map spec_constraints (gate_nodes 0 f))" by (rule cs)
    show "length (gate_nodes 0 f) = gates f" by (rule gate_nodes_length)
    show "\<forall>(a, op, values) \<in> set (gate_nodes 0 f). \<forall>\<sigma>.
        \<sigma> a \<in> {0, 1} \<and> (\<forall>v \<in> set values. \<sigma> v \<in> {0, 1}) \<and>
        list_all (holds \<sigma>) (spec_constraints (a, op, values)) \<longrightarrow>
        (\<sigma> a = 1) = spec_gate \<sigma> (a, op, values)"
    proof (intro ballI)
      fix g assume g: "g \<in> set (gate_nodes 0 f)"
      obtain a op vs where e: "g = (a, op, vs)" by (cases g)
      have "\<forall>\<sigma>. \<sigma> a \<in> {0, 1} \<and> (\<forall>v \<in> set vs. \<sigma> v \<in> {0, 1}) \<and>
          list_all (holds \<sigma>) (spec_constraints (a, op, vs)) \<longrightarrow>
          (\<sigma> a = 1) = spec_gate \<sigma> (a, op, vs)"
      proof (intro allI impI, elim conjE)
        fix \<sigma>
        assume "\<sigma> a \<in> {0, 1}" "\<forall>v \<in> set vs. \<sigma> v \<in> {0, 1}"
          "list_all (holds \<sigma>) (spec_constraints (a, op, vs))"
        with g [unfolded e] show "(\<sigma> a = 1) = spec_gate \<sigma> (a, op, vs)" by (rule each)
      qed
      then show "case g of (a, op, values) \<Rightarrow> \<forall>\<sigma>.
          \<sigma> a \<in> {0, 1} \<and> (\<forall>v \<in> set values. \<sigma> v \<in> {0, 1}) \<and>
          list_all (holds \<sigma>) (spec_constraints (a, op, values)) \<longrightarrow>
          (\<sigma> a = 1) = spec_gate \<sigma> (a, op, values)"
        unfolding e by simp
    qed
    show "\<forall>\<sigma>. (\<forall>v. \<sigma> v \<in> {0, 1}) \<and> list_all (holds \<sigma>) (constraints ?p) \<longrightarrow>
        objective_value ?p \<sigma> = of_truth (truth (\<lambda>n. \<sigma> (lit_var n) = 1) f)"
    proof (intro allI impI, elim conjE)
      fix \<sigma>
      assume "\<forall>v. \<sigma> v \<in> {0, 1}" "list_all (holds \<sigma>) (constraints ?p)"
      then show "objective_value ?p \<sigma> = of_truth (truth (\<lambda>n. \<sigma> (lit_var n) = 1) f)"
        by (rule whole)
    qed
  qed
qed

lemma unary_not_contradiction: "unary_not contradiction"
  by (simp add: contradiction_def)

lemma gate_nodes_contradiction:
  "gate_nodes 0 contradiction = [(aux_0, NOT, [x_a]), (aux_1, AND, [x_a, aux_0])]"
  by (simp add: contradiction_def aux_var_at_def lit_var_def var_defs str_nat_digit digit_def)

theorem gate_encoding_witness:
  "unary_not contradiction \<and>
   sat_to_ilp contradiction = Inr (contradiction_problem, [(''a'', x_a)]) \<and>
   gate_nodes 0 contradiction = [(aux_0, NOT, [x_a]), (aux_1, AND, [x_a, aux_0])] \<and>
   constraints contradiction_problem =
     concat (map spec_constraints [(aux_0, NOT, [x_a]), (aux_1, AND, [x_a, aux_0])]) \<and>
   (\<forall>v. (\<lambda>v. if name v = ''aux_0'' then 1 else 0::int) v \<in> {0, 1}) \<and>
   list_all (holds (\<lambda>v. if name v = ''aux_0'' then 1 else 0)) (constraints contradiction_problem) \<and>
   ((\<lambda>v. if name v = ''aux_0'' then 1 else 0::int) aux_1 = 1) =
     spec_gate (\<lambda>v. if name v = ''aux_0'' then 1 else 0) (aux_1, AND, [x_a, aux_0]) \<and>
   ((\<lambda>v. if name v = ''aux_0'' then 1 else 0::int) aux_0 = 1) =
     spec_gate (\<lambda>v. if name v = ''aux_0'' then 1 else 0) (aux_0, NOT, [x_a]) \<and>
   objective_value contradiction_problem (\<lambda>v. if name v = ''aux_0'' then 1 else 0) = 0 \<and>
   truth (\<lambda>n. (\<lambda>v. if name v = ''aux_0'' then 1 else 0::int) (lit_var n) = 1) contradiction = False"
proof -
  let ?\<sigma> = "\<lambda>v. if name v = ''aux_0'' then 1 else 0::int"
  from gate_encoding [OF unary_not_contradiction]
  obtain p vars where enc: "sat_to_ilp contradiction = Inr (p, vars)"
    and cs: "constraints p = concat (map spec_constraints (gate_nodes 0 contradiction))"
    and each: "\<forall>(a, op, values) \<in> set (gate_nodes 0 contradiction). \<forall>\<sigma>.
        \<sigma> a \<in> {0, 1} \<and> (\<forall>v \<in> set values. \<sigma> v \<in> {0, 1}) \<and>
        list_all (holds \<sigma>) (spec_constraints (a, op, values)) \<longrightarrow>
        (\<sigma> a = 1) = spec_gate \<sigma> (a, op, values)"
    and whole: "\<forall>\<sigma>. (\<forall>v. \<sigma> v \<in> {0, 1}) \<and> list_all (holds \<sigma>) (constraints p) \<longrightarrow>
        objective_value p \<sigma> = of_truth (truth (\<lambda>n. \<sigma> (lit_var n) = 1) contradiction)"
    by blast
  from enc have p: "p = contradiction_problem" by (simp add: sat_to_ilp_contradiction)
  have b: "\<forall>v. ?\<sigma> v \<in> {0, 1}" by simp
  have h: "list_all (holds ?\<sigma>) (constraints contradiction_problem)"
    by (simp add: contradiction_problem_def var_defs)
  have t: "truth (\<lambda>n. ?\<sigma> (lit_var n) = 1) contradiction = False"
    by (simp add: contradiction_def lit_var_def)
  note whole [unfolded p, THEN spec, of ?\<sigma>, THEN mp, OF conjI [OF b h]]
  then have o: "objective_value contradiction_problem ?\<sigma> = 0"
    by (simp only: t of_truth.simps)
  have m1: "(aux_1, AND, [x_a, aux_0]) \<in> set (gate_nodes 0 contradiction)"
    and m0: "(aux_0, NOT, [x_a]) \<in> set (gate_nodes 0 contradiction)"
    by (simp_all add: gate_nodes_contradiction)
  note e1 = each [THEN bspec, OF m1, unfolded prod.case]
  note e0 = each [THEN bspec, OF m0, unfolded prod.case]
  have "?\<sigma> aux_1 \<in> {0, 1} \<and> (\<forall>v \<in> set [x_a, aux_0]. ?\<sigma> v \<in> {0, 1}) \<and>
        list_all (holds ?\<sigma>) (spec_constraints (aux_1, AND, [x_a, aux_0]))"
    by (simp add: var_defs py_sum_def)
  note g1 = e1 [THEN spec, of ?\<sigma>, THEN mp, OF this]
  have "?\<sigma> aux_0 \<in> {0, 1} \<and> (\<forall>v \<in> set [x_a]. ?\<sigma> v \<in> {0, 1}) \<and>
        list_all (holds ?\<sigma>) (spec_constraints (aux_0, NOT, [x_a]))"
    by (simp add: var_defs)
  note g0 = e0 [THEN spec, of ?\<sigma>, THEN mp, OF this]
  from cs have c: "constraints contradiction_problem =
      concat (map spec_constraints [(aux_0, NOT, [x_a]), (aux_1, AND, [x_a, aux_0])])"
    unfolding p gate_nodes_contradiction .
  show ?thesis
    by (intro conjI)
      (fact unary_not_contradiction sat_to_ilp_contradiction gate_nodes_contradiction c b h g1 g0 o t)+
qed

section \<open>The evaluator, operand by operand\<close>

lemma is_str_map_Str [simp]: "list_all is_str (map Str ns)"
  by (induction ns) simp_all

lemma all_input_first:
  "all_input input (map Str ns) =
     (case find (\<lambda>n. input n \<noteq> Some True) ns of
        None \<Rightarrow> Inr True
      | Some n \<Rightarrow> (case input n of None \<Rightarrow> Inl KeyError | Some b \<Rightarrow> Inr False))"
  by (induction ns) (auto split: option.splits)

lemma any_input_first:
  "any_input input (map Str ns) =
     (case find (\<lambda>n. input n \<noteq> Some False) ns of
        None \<Rightarrow> Inr False
      | Some n \<Rightarrow> (case input n of None \<Rightarrow> Inl KeyError | Some b \<Rightarrow> Inr True))"
  by (induction ns) (auto split: option.splits)

lemma verify_all_append:
  "verify_all (xs @ ys) input =
     (case verify_all xs input of
        Inl e \<Rightarrow> Inl e
      | Inr bs \<Rightarrow> (case verify_all ys input of Inl e \<Rightarrow> Inl e | Inr cs \<Rightarrow> Inr (bs @ cs)))"
  by (induction xs) (auto split: sum.splits)

lemma verify_all_ok:
  "\<forall>u \<in> set xs. \<exists>c. verify_sat u input = Inr c \<Longrightarrow>
     \<exists>bs. verify_all xs input = Inr bs \<and> length bs = length xs"
  by (induction xs) (auto split: sum.splits)

lemma verify_sat_gates:
  "\<not> list_all is_str vals \<Longrightarrow>
     verify_sat (Set op vals) input =
       (case verify_all vals input of
          Inl e \<Rightarrow> Inl e
        | Inr bs \<Rightarrow> use_operator_on_booleans op bs)"
  by simp

lemma first_error_propagates:
  assumes gates: "\<not> list_all is_str (xs @ y # zs)"
    and before: "\<forall>u \<in> set xs. \<exists>c. verify_sat u input = Inr c"
    and y: "verify_sat y input = Inl e"
  shows "verify_sat (Set op (xs @ y # zs)) input = Inl e"
proof -
  from verify_all_ok [OF before] obtain bs where "verify_all xs input = Inr bs" by blast
  with y have "verify_all (xs @ y # zs) input = Inl e"
    by (simp add: verify_all_append)
  then show ?thesis by (simp only: verify_sat_gates [OF gates] sum.case)
qed

lemma not_of_gates:
  assumes gates: "\<not> list_all is_str (v # vs)"
    and v: "verify_sat v input = Inr b"
    and rest: "\<forall>u \<in> set vs. \<exists>c. verify_sat u input = Inr c"
  shows "verify_sat (Set NOT (v # vs)) input = Inr (\<not> b)"
proof -
  from verify_all_ok [OF rest] obtain bs where "verify_all vs input = Inr bs" by blast
  with v have "verify_all (v # vs) input = Inr (b # bs)" by simp
  then show ?thesis
    by (simp only: verify_sat_gates [OF gates] sum.case use_operator_on_booleans.simps list.case)
qed

section \<open>A NOT gate with more than one operand\<close>

text \<open>
  C10. A NOT gate with more than one operand does not make the encoder fail. Unless some
  NOT gate inside its operands has no operand at all, \<^verbatim>\<open>process_set\<close>, from any state
  it can be in, encodes every operand, in order (their constraints are appended, their
  literals registered, the counter moved by their gates), then creates the next auxiliary
  variable and appends the single constraint \<open>aux = 1 - v\<close> on the variable \<open>v\<close> of the
  first operand; the other operands' variables occur in no constraint of the NOT node. So
  does \<^verbatim>\<open>sat_to_ilp\<close> on such a gate. The evaluator, on a NOT gate over literals, looks
  up the first literal only and returns the negation of its value.
\<close>

theorem not_gate_first_operand:
  assumes ok: "\<not> any_empty_not (v # w # ws)" and names: "names_ok (variables s)"
  shows "process_set (Set NOT (v # w # ws)) s =
      Inr (aux_var_at (count s + gates_list (v # w # ws)),
           advance (gates_list (v # w # ws) + 1) (literals_list (v # w # ws))
             (post_order (count s) v @ post_order_list (count s + gates v) (w # ws) @
              [EQ (V (aux_var_at (count s + gates_list (v # w # ws))))
                  (Sub (Const 1) (V (root_var (count s) v)))]) s) \<and>
    sat_to_ilp (Set NOT (v # w # ws)) =
      Inr (\<lparr>pname = ''SAT_to_ILP'', sense = LpMaximize,
            objective = Some (V (aux_var_at (gates_list (v # w # ws))), ''Satisfiability''),
            constraints =
              post_order 0 v @ post_order_list (gates v) (w # ws) @
              [EQ (V (aux_var_at (gates_list (v # w # ws)))) (Sub (Const 1) (V (root_var 0 v)))]\<rparr>,
           foldl register [] (literals_list (v # w # ws))) \<and>
    (list_all is_str (w # ws) \<longrightarrow>
       verify_sat (Set NOT (Str n # w # ws)) input =
         (case input n of None \<Rightarrow> Inl KeyError | Some b \<Rightarrow> Inr (\<not> b)))"
proof (intro conjI impI)
  from ok have ne: "\<not> has_empty_not (Set NOT (v # w # ws))" by simp
  from process_closed(1) [OF names ne]
  show "process_set (Set NOT (v # w # ws)) s =
      Inr (aux_var_at (count s + gates_list (v # w # ws)),
           advance (gates_list (v # w # ws) + 1) (literals_list (v # w # ws))
             (post_order (count s) v @ post_order_list (count s + gates v) (w # ws) @
              [EQ (V (aux_var_at (count s + gates_list (v # w # ws))))
                  (Sub (Const 1) (V (root_var (count s) v)))]) s)"
    by (simp add: gate_shape_def del: process_set.simps)
  from process_closed(1) [OF names_ok_init ne]
  show "sat_to_ilp (Set NOT (v # w # ws)) =
      Inr (\<lparr>pname = ''SAT_to_ILP'', sense = LpMaximize,
            objective = Some (V (aux_var_at (gates_list (v # w # ws))), ''Satisfiability''),
            constraints =
              post_order 0 v @ post_order_list (gates v) (w # ws) @
              [EQ (V (aux_var_at (gates_list (v # w # ws)))) (Sub (Const 1) (V (root_var 0 v)))]\<rparr>,
           foldl register [] (literals_list (v # w # ws)))"
    by (simp add: sat_to_ilp_def init_state_def advance_def gate_shape_def del: process_set.simps)
next
  assume "list_all is_str (w # ws)"
  then show "verify_sat (Set NOT (Str n # w # ws)) input =
      (case input n of None \<Rightarrow> Inl KeyError | Some b \<Rightarrow> Inr (\<not> b))"
    by (simp split: option.splits)
qed

lemma names_ok_state_ab: "names_ok (variables state_ab)"
  by (simp add: names_ok_def state_ab_def lit_var_def var_defs)

theorem not_gate_first_operand_witness:
  "\<not> any_empty_not [Set AND [Str ''a''], Set OR [Str ''b'']] \<and>
   names_ok (variables state_ab) \<and>
   sat_to_ilp not_and_or = Inr (not_and_or_problem, [(''a'', x_a), (''b'', x_b)]) \<and>
   process_set not_and_or state_ab =
     Inr (aux_2, advance 3 [''a'', ''b''] (constraints not_and_or_problem) state_ab) \<and>
   list_all is_str [Str ''b''] \<and>
   verify_sat (Set NOT [Str ''a'', Str ''b'']) [''a'' \<mapsto> True] = Inr False"
proof -
  have ok: "\<not> any_empty_not [Set AND [Str ''a''], Set OR [Str ''b'']]" by simp
  have ok': "\<not> any_empty_not [Str ''a'', Str ''b'']" by simp
  have a: "aux_var_at 0 = aux_0" "aux_var_at 1 = aux_1" "aux_var_at 2 = aux_2"
    "aux_var_at (Suc 0) = aux_1" "aux_var_at (Suc (Suc 0)) = aux_2"
    by (simp_all add: aux_var_at_def var_defs str_nat_digit digit_def)
  have l: "lit_var ''a'' = x_a" "lit_var ''b'' = x_b"
    by (simp_all add: lit_var_def var_defs)
  have r: "register (register [] ''a'') ''b'' = [(''a'', x_a), (''b'', x_b)]"
    by (simp add: register_def l)
  from not_gate_first_operand [OF ok names_ok_state_ab, of "''a''" "[''a'' \<mapsto> True]"]
  have "process_set not_and_or state_ab =
      Inr (aux_2, advance 3 [''a'', ''b''] (constraints not_and_or_problem) state_ab)"
    and "sat_to_ilp not_and_or = Inr (not_and_or_problem, [(''a'', x_a), (''b'', x_b)])"
    by (simp_all add: not_and_or_def not_and_or_problem_def count_state_ab gate_shape_def
        py_sum_def a l r numeral_3_eq_3 del: process_set.simps)
  moreover from not_gate_first_operand [OF ok' names_ok_state_ab, of "''a''" "[''a'' \<mapsto> True]"]
  have "verify_sat (Set NOT [Str ''a'', Str ''b'']) [''a'' \<mapsto> True] = Inr False"
    by (simp del: process_set.simps verify_sat.simps)
  ultimately show ?thesis
    using ok names_ok_state_ab by (simp del: process_set.simps verify_sat.simps)
qed

section \<open>What the code does on gates of any arity\<close>

text \<open>
  C6, amended. Neither function validates arity. \<^verbatim>\<open>sat_to_ilp\<close> fails exactly when
  some NOT gate of the formula has zero operands, and then with IndexError; every other
  formula is encoded: AND with zero operands gets the one constraint \<open>aux \<ge> 0 - 0 + 1\<close>,
  OR with zero operands \<open>aux \<le> 0\<close>. \<^verbatim>\<open>verify_sat\<close> returns True for AND with zero
  operands, False for OR with zero operands, and fails with IndexError for NOT with zero
  operands. For a NOT gate with one or more operands: over literals it returns the negation
  of the first literal's value (KeyError when that literal has no value) and does not look
  at the others; when not all operands are literals and every operand evaluates to a
  boolean it returns the negation of the first operand's value; with both a literal and a
  gate among its operands any gate fails.
\<close>

theorem arity_not_validated:
  "(sat_to_ilp f = Inl IndexError) = has_empty_not f \<and>
   (\<exists>r. sat_to_ilp f = Inr r) = (\<not> has_empty_not f) \<and>
   sat_to_ilp (Set AND []) =
     Inr (\<lparr>pname = ''SAT_to_ILP'', sense = LpMaximize,
           objective = Some (V aux_0, ''Satisfiability''),
           constraints = [GE (V aux_0) (Add (Sub (Const 0) (Const 0)) (Const 1))]\<rparr>, []) \<and>
   sat_to_ilp (Set OR []) =
     Inr (\<lparr>pname = ''SAT_to_ILP'', sense = LpMaximize,
           objective = Some (V aux_0, ''Satisfiability''),
           constraints = [LE (V aux_0) (Const 0)]\<rparr>, []) \<and>
   verify_sat (Set AND []) input = Inr True \<and>
   verify_sat (Set OR []) input = Inr False \<and>
   verify_sat (Set NOT []) input = Inl IndexError \<and>
   (list_all is_str rest \<longrightarrow>
      verify_sat (Set NOT (Str n # rest)) input =
        (case input n of None \<Rightarrow> Inl KeyError | Some b \<Rightarrow> Inr (\<not> b))) \<and>
   (\<not> list_all is_str (v # vs) \<and> verify_sat v input = Inr b \<and>
    (\<forall>u \<in> set vs. \<exists>c. verify_sat u input = Inr c) \<longrightarrow>
      verify_sat (Set NOT (v # vs)) input = Inr (\<not> b)) \<and>
   (Str s \<in> set vals \<and> Set op' ws \<in> set vals \<longrightarrow>
      (\<exists>e. verify_sat (Set op vals) input = Inl e))"
proof (intro conjI impI)
  show "(sat_to_ilp f = Inl IndexError) = has_empty_not f"
    using process_fails(1) [of f init_state]
    by (auto simp: sat_to_ilp_def split: sum.splits)
  show "(\<exists>r. sat_to_ilp f = Inr r) = (\<not> has_empty_not f)"
    using process_fails(1) [of f init_state]
    by (auto simp: sat_to_ilp_def split: sum.splits)
  show "sat_to_ilp (Set AND []) =
     Inr (\<lparr>pname = ''SAT_to_ILP'', sense = LpMaximize,
           objective = Some (V aux_0, ''Satisfiability''),
           constraints = [GE (V aux_0) (Add (Sub (Const 0) (Const 0)) (Const 1))]\<rparr>, [])"
    by (simp add: enc_defs var_defs)
  show "sat_to_ilp (Set OR []) =
     Inr (\<lparr>pname = ''SAT_to_ILP'', sense = LpMaximize,
           objective = Some (V aux_0, ''Satisfiability''),
           constraints = [LE (V aux_0) (Const 0)]\<rparr>, [])"
    by (simp add: enc_defs var_defs)
  show "verify_sat (Set AND []) input = Inr True" by simp
  show "verify_sat (Set OR []) input = Inr False" by simp
  show "verify_sat (Set NOT []) input = Inl IndexError" by simp
next
  assume "list_all is_str rest"
  then show "verify_sat (Set NOT (Str n # rest)) input =
      (case input n of None \<Rightarrow> Inl KeyError | Some b \<Rightarrow> Inr (\<not> b))"
    by (simp split: option.splits)
next
  assume "\<not> list_all is_str (v # vs) \<and> verify_sat v input = Inr b \<and>
    (\<forall>u \<in> set vs. \<exists>c. verify_sat u input = Inr c)"
  then show "verify_sat (Set NOT (v # vs)) input = Inr (\<not> b)"
    using not_of_gates [of v vs input b] by blast
next
  assume "Str s \<in> set vals \<and> Set op' ws \<in> set vals"
  then show "\<exists>e. verify_sat (Set op vals) input = Inl e"
    using verify_sat_mixed_fails [of s vals op' ws op input] by blast
qed

theorem arity_not_validated_witness:
  "sat_to_ilp (Set NOT []) = Inl IndexError \<and>
   (\<exists>r. sat_to_ilp (Set NOT [Str ''a'', Str ''b'']) = Inr r) \<and>
   list_all is_str [Str ''b''] \<and>
   verify_sat (Set NOT [Str ''a'', Str ''b'']) [''a'' \<mapsto> True] = Inr False \<and>
   \<not> list_all is_str [Set OR [], Set AND []] \<and>
   verify_sat (Set OR []) Map.empty = Inr False \<and>
   verify_sat (Set AND []) Map.empty = Inr True \<and>
   verify_sat (Set NOT [Set OR [], Set AND []]) Map.empty = Inr True \<and>
   Str ''a'' \<in> set [Set AND [], Str ''a''] \<and> Set AND [] \<in> set [Set AND [], Str ''a''] \<and>
   (\<exists>e. verify_sat (Set NOT [Set AND [], Str ''a'']) [''a'' \<mapsto> True] = Inl e)"
proof -
  have 1: "sat_to_ilp (Set NOT []) = Inl IndexError"
    using arity_not_validated [of "Set NOT []"] by simp
  have 2: "\<exists>r. sat_to_ilp (Set NOT [Str ''a'', Str ''b'']) = Inr r"
    using arity_not_validated [of "Set NOT [Str ''a'', Str ''b'']"] by simp
  have 3: "verify_sat (Set NOT [Str ''a'', Str ''b'']) [''a'' \<mapsto> True] = Inr False"
    using arity_not_validated [of _ "[''a'' \<mapsto> True]" "[Str ''b'']" "''a''"] by simp
  have 4: "verify_sat (Set NOT [Set OR [], Set AND []]) Map.empty = Inr True"
    using arity_not_validated [of _ Map.empty _ _ "Set OR []" "[Set AND []]" False] by simp
  have 5: "\<exists>e. verify_sat (Set NOT [Set AND [], Str ''a'']) [''a'' \<mapsto> True] = Inl e"
    using arity_not_validated [of _ "[''a'' \<mapsto> True]" _ _ _ _ _ "''a''" "[Set AND [], Str ''a'']" AND "[]" NOT]
    by simp
  from 1 2 3 4 5 show ?thesis by auto
qed

section \<open>When a literal without a value makes the evaluator fail\<close>

text \<open>
  C7, amended. \<^verbatim>\<open>verify_sat\<close> fails with KeyError only when the assignment lacks a value
  for some literal of the formula. Over literal operands the lookups go from left to right
  and stop at the deciding literal. AND is decided by the first literal that is not true:
  KeyError if it has no value, False if it is false, True if there is none. OR is decided by
  the first literal that is not false: KeyError if it has no value, True if it is true,
  False if there is none. NOT is decided by its first literal alone. Over operands that are
  not all literals, every operand is evaluated, from left to right, and the error of the
  first operand that fails is the error of the gate, whatever the values of the operands
  before it.
\<close>

theorem missing_literal:
  "(verify_sat f input = Inl KeyError \<longrightarrow> (\<exists>n \<in> set (literals f). input n = None)) \<and>
   verify_sat (Set AND (map Str ns)) input =
     (case find (\<lambda>n. input n \<noteq> Some True) ns of
        None \<Rightarrow> Inr True
      | Some n \<Rightarrow> (case input n of None \<Rightarrow> Inl KeyError | Some b \<Rightarrow> Inr False)) \<and>
   verify_sat (Set OR (map Str ns)) input =
     (case find (\<lambda>n. input n \<noteq> Some False) ns of
        None \<Rightarrow> Inr False
      | Some n \<Rightarrow> (case input n of None \<Rightarrow> Inl KeyError | Some b \<Rightarrow> Inr True)) \<and>
   verify_sat (Set NOT (map Str (n # ns))) input =
     (case input n of None \<Rightarrow> Inl KeyError | Some b \<Rightarrow> Inr (\<not> b)) \<and>
   (\<not> list_all is_str (xs @ y # zs) \<and> (\<forall>u \<in> set xs. \<exists>c. verify_sat u input = Inr c) \<and>
    verify_sat y input = Inl e \<longrightarrow>
      verify_sat (Set op (xs @ y # zs)) input = Inl e)"
proof (intro conjI impI)
  assume "verify_sat f input = Inl KeyError"
  then show "\<exists>n \<in> set (literals f). input n = None" by (rule verify_KeyError(1))
next
  show "verify_sat (Set AND (map Str ns)) input =
     (case find (\<lambda>n. input n \<noteq> Some True) ns of
        None \<Rightarrow> Inr True
      | Some n \<Rightarrow> (case input n of None \<Rightarrow> Inl KeyError | Some b \<Rightarrow> Inr False))"
    by (simp add: all_input_first)
  show "verify_sat (Set OR (map Str ns)) input =
     (case find (\<lambda>n. input n \<noteq> Some False) ns of
        None \<Rightarrow> Inr False
      | Some n \<Rightarrow> (case input n of None \<Rightarrow> Inl KeyError | Some b \<Rightarrow> Inr True))"
    by (simp add: any_input_first)
  show "verify_sat (Set NOT (map Str (n # ns))) input =
     (case input n of None \<Rightarrow> Inl KeyError | Some b \<Rightarrow> Inr (\<not> b))"
    by (simp split: option.splits)
next
  assume "\<not> list_all is_str (xs @ y # zs) \<and> (\<forall>u \<in> set xs. \<exists>c. verify_sat u input = Inr c) \<and>
    verify_sat y input = Inl e"
  then show "verify_sat (Set op (xs @ y # zs)) input = Inl e"
    using first_error_propagates [of xs y zs input e op] by blast
qed

theorem missing_literal_witness:
  "verify_sat (Set OR [Str ''a'', Str ''b'']) [''b'' \<mapsto> True] = Inl KeyError \<and>
   (\<exists>n \<in> set (literals (Set OR [Str ''a'', Str ''b''])). [''b'' \<mapsto> True] n = None) \<and>
   verify_sat (Set AND [Str ''a'', Str ''b'']) [''a'' \<mapsto> True] = Inl KeyError \<and>
   verify_sat (Set AND [Str ''a'', Str ''b'']) [''a'' \<mapsto> False] = Inr False \<and>
   verify_sat (Set OR [Str ''a'', Str ''b'']) [''a'' \<mapsto> True] = Inr True \<and>
   verify_sat (Set NOT [Str ''a'', Str ''b'']) [''a'' \<mapsto> True] = Inr False \<and>
   \<not> list_all is_str ([Set OR [Str ''a'']] @ Set OR [Str ''b''] # []) \<and>
   verify_sat (Set OR [Str ''a'']) [''a'' \<mapsto> True] = Inr True \<and>
   verify_sat (Set OR [Str ''b'']) [''a'' \<mapsto> True] = Inl KeyError \<and>
   verify_sat (Set OR [Set OR [Str ''a''], Set OR [Str ''b'']]) [''a'' \<mapsto> True] = Inl KeyError"
proof -
  have 1: "verify_sat (Set OR [Str ''a'', Str ''b'']) [''b'' \<mapsto> True] = Inl KeyError"
    using missing_literal [of _ "[''b'' \<mapsto> True]" "[''a'', ''b'']"] by simp
  have 2: "\<exists>n \<in> set (literals (Set OR [Str ''a'', Str ''b''])). [''b'' \<mapsto> True] n = None"
    using missing_literal [of "Set OR [Str ''a'', Str ''b'']" "[''b'' \<mapsto> True]"] 1
    by (simp del: verify_sat.simps)
  have 3: "verify_sat (Set AND [Str ''a'', Str ''b'']) [''a'' \<mapsto> True] = Inl KeyError"
    "verify_sat (Set OR [Str ''a'', Str ''b'']) [''a'' \<mapsto> True] = Inr True"
    "verify_sat (Set NOT [Str ''a'', Str ''b'']) [''a'' \<mapsto> True] = Inr False"
    using missing_literal [of _ "[''a'' \<mapsto> True]" "[''a'', ''b'']" "''a''"] by simp_all
  have 4: "verify_sat (Set AND [Str ''a'', Str ''b'']) [''a'' \<mapsto> False] = Inr False"
    using missing_literal [of _ "[''a'' \<mapsto> False]" "[''a'', ''b'']"] by simp
  have 5: "verify_sat (Set OR [Set OR [Str ''a''], Set OR [Str ''b'']]) [''a'' \<mapsto> True] = Inl KeyError"
    using missing_literal [of _ "[''a'' \<mapsto> True]" _ _ "[Set OR [Str ''a'']]" "Set OR [Str ''b'']" "[]" KeyError OR]
    by simp
  from 1 2 3 4 5 show ?thesis by auto
qed

end
